theory Spec2Isabelle
  imports Main "HOL-Library.Word"
begin

section \<open>Lowering of LHLO reductions to parallel loops\<close>

text \<open>
  A shallow embedding of \<^verbatim>\<open>lhlo_legalize_to_parallel_loops.cc\<close>. The file is an IR
  builder: every function threads a pattern rewriter that holds the blocks written so
  far, an insertion point and the supply of fresh SSA values. Blocks are objects
  shared by pointer in the source, so they live in an explicit store indexed by block
  references. Dereferencing an empty range, a failed \<^verbatim>\<open>cast\<close>, reading the value of an
  absent optional attribute and an out-of-range subscript are branches of the model
  that end in an \<open>error\<close>, together with the rewriter as it was at that point.
  The last \<open>error\<close>, \<open>RegionCycle\<close>, is for a store that is no module: a deep copy
  that meets regions nested deeper than the store has blocks.
\<close>

subsection \<open>Types, values and operations\<close>

datatype type = IndexType | IntegerType nat | FloatType nat | MemRefType "int list" type

definition kDynamicSize :: int where
  "kDynamicSize = - 1"

datatype mlir_value = Value (vid: nat) (getType: type)

type_synonym block_ref = nat

datatype CmpIPredicate = slt | ult

text \<open>
  The name of an operation carries its attributes: the dimension queried by
  \<open>DimOp\<close>, the constant of \<open>ConstantIndexOp\<close> and \<open>ConstantOp\<close>, the predicate of
  \<open>CmpIOp\<close> and the four operand segment sizes (lower bounds, upper bounds, steps,
  initial values) of \<open>ParallelOp\<close>. \<open>OtherOp\<close> stands for every operation the
  converters copy or leave alone and never create, such as those of a reduction body.
\<close>

datatype opname =
    AllocOp | LoadOp | StoreOp | DimOp nat | ConstantIndexOp int | ConstantOp int
  | MulIOp | SubIOp | AddIOp | CmpIOp CmpIPredicate | AndOp
  | ParallelOp nat nat nat nat | IfOp | ReduceOp | ReduceReturnOp | YieldOp
  | OtherOp string

record operation =
  op_name :: opname
  op_operands :: "mlir_value list"
  op_results :: "mlir_value list"
  op_regions :: "block_ref list"

datatype severity = Error | Remark

record diagnostic =
  diag_severity :: severity
  diag_op :: nat
  diag_message :: string

datatype LogicalResult = success | failure

datatype error = EmptyRange | BadCast | NoValue | OutOfRange | NullIterator | RegionCycle

subsection \<open>The pattern rewriter\<close>

record rewriter =
  block_args :: "block_ref \<Rightarrow> mlir_value list"
  block_ops :: "block_ref \<Rightarrow> operation list"
  next_value :: nat
  next_block :: nat
  insertion_point :: "block_ref \<times> nat"
  diagnostics :: "diagnostic list"
  replaced :: "nat list"

type_synonym 'a result = "(error \<times> rewriter) + ('a \<times> rewriter)"

definition fresh_values :: "type list \<Rightarrow> rewriter \<Rightarrow> mlir_value list \<times> rewriter" where
  "fresh_values tys st =
     (map (\<lambda>(i, t). Value (next_value st + i) t) (enumerate 0 tys),
      st\<lparr>next_value := next_value st + length tys\<rparr>)"

definition insert_at :: "block_ref \<times> nat \<Rightarrow> operation \<Rightarrow> rewriter \<Rightarrow> rewriter" where
  "insert_at pt oper st =
     st\<lparr>block_ops := (block_ops st)
          (fst pt := take (snd pt) (block_ops st (fst pt)) @ oper # drop (snd pt) (block_ops st (fst pt)))\<rparr>"

text \<open>
  \<^verbatim>\<open>OpBuilder::create\<close> at an explicit insertion point: the operation gets fresh
  results of the given types and is inserted before the point, which then lies
  behind the new operation.
\<close>

definition create_at ::
  "block_ref \<times> nat \<Rightarrow> opname \<Rightarrow> mlir_value list \<Rightarrow> type list \<Rightarrow> block_ref list \<Rightarrow> rewriter
     \<Rightarrow> operation \<times> (block_ref \<times> nat) \<times> rewriter" where
  "create_at pt n args tys regs st =
     (let (rs, st1) = fresh_values tys st;
          oper = \<lparr>op_name = n, op_operands = args, op_results = rs, op_regions = regs\<rparr>
      in (oper, (fst pt, Suc (snd pt)), insert_at pt oper st1))"

definition create ::
  "opname \<Rightarrow> mlir_value list \<Rightarrow> type list \<Rightarrow> block_ref list \<Rightarrow> rewriter \<Rightarrow> operation \<times> rewriter" where
  "create n args tys regs st =
     (let (oper, pt, st1) = create_at (insertion_point st) n args tys regs st
      in (oper, st1\<lparr>insertion_point := pt\<rparr>))"

definition create1 :: "opname \<Rightarrow> mlir_value list \<Rightarrow> type \<Rightarrow> rewriter \<Rightarrow> mlir_value \<times> rewriter" where
  "create1 n args ty st = (let (oper, st1) = create n args [ty] [] st in (hd (op_results oper), st1))"

definition create0 :: "opname \<Rightarrow> mlir_value list \<Rightarrow> rewriter \<Rightarrow> rewriter" where
  "create0 n args st = snd (create n args [] [] st)"

definition setInsertionPointToStart :: "block_ref \<Rightarrow> rewriter \<Rightarrow> rewriter" where
  "setInsertionPointToStart b st = st\<lparr>insertion_point := (b, 0)\<rparr>"

definition new_block :: "type list \<Rightarrow> operation list \<Rightarrow> rewriter \<Rightarrow> block_ref \<times> rewriter" where
  "new_block tys body_ops st =
     (let (as, st1) = fresh_values tys st; b = next_block st1
      in (b, st1\<lparr>block_args := (block_args st1)(b := as),
                block_ops := (block_ops st1)(b := body_ops),
                next_block := Suc b\<rparr>))"

definition yield_terminator :: operation where
  "yield_terminator = \<lparr>op_name = YieldOp, op_operands = [], op_results = [], op_regions = []\<rparr>"

text \<open>
  \<^verbatim>\<open>loop::ParallelOp::build\<close>: one region whose block has an index argument per step
  and ends in a \<^verbatim>\<open>loop.yield\<close>; one result per initial value.
\<close>

definition create_ParallelOp ::
  "mlir_value list \<Rightarrow> mlir_value list \<Rightarrow> mlir_value list \<Rightarrow> mlir_value list \<Rightarrow> rewriter
     \<Rightarrow> operation \<times> rewriter" where
  "create_ParallelOp lbs ubs steps initVals st =
     (let (bodyRegion, st1) = new_block (replicate (length steps) IndexType) [yield_terminator] st
      in create (ParallelOp (length lbs) (length ubs) (length steps) (length initVals))
           (lbs @ ubs @ steps @ initVals) (map getType initVals) [bodyRegion] st1)"

definition getBody :: "operation \<Rightarrow> block_ref" where
  "getBody oper = hd (op_regions oper)"

definition getInductionVars :: "rewriter \<Rightarrow> operation \<Rightarrow> mlir_value list" where
  "getInductionVars st oper = block_args st (getBody oper)"

definition initVals :: "operation \<Rightarrow> mlir_value list" where
  "initVals oper =
     (case op_name oper of
        ParallelOp nl nu ns ni \<Rightarrow> drop (nl + nu + ns) (op_operands oper)
      | _ \<Rightarrow> [])"

text \<open>
  \<^verbatim>\<open>loop::ReduceOp::build\<close>: a region whose block takes two arguments of the
  operand's type and has no terminator yet.
\<close>

definition create_ReduceOp :: "mlir_value \<Rightarrow> rewriter \<Rightarrow> operation \<times> rewriter" where
  "create_ReduceOp operand st =
     (let (bodyRegion, st1) = new_block [getType operand, getType operand] [] st
      in create ReduceOp [operand] [] [bodyRegion] st1)"

text \<open>
  \<^verbatim>\<open>loop::IfOp::build\<close> with result types: the blocks of the two regions get a
  terminator only when the operation has no results.
\<close>

definition create_IfOp :: "type list \<Rightarrow> mlir_value \<Rightarrow> bool \<Rightarrow> rewriter \<Rightarrow> operation \<times> rewriter" where
  "create_IfOp resultTypes cond withElseRegion st =
     (let term = (if resultTypes = [] then [yield_terminator] else []);
          (thenRegion, st1) = new_block [] term st
      in if withElseRegion then
           (let (elseRegion, st2) = new_block [] term st1
            in create IfOp [cond] resultTypes [thenRegion, elseRegion] st2)
         else create IfOp [cond] resultTypes [thenRegion] st1)"

definition emitOpError :: "nat \<Rightarrow> string \<Rightarrow> rewriter \<Rightarrow> rewriter" where
  "emitOpError h msg st =
     st\<lparr>diagnostics := diagnostics st @
          [\<lparr>diag_severity = Error, diag_op = h, diag_message = msg\<rparr>]\<rparr>"

definition emitRemark :: "nat \<Rightarrow> string \<Rightarrow> rewriter \<Rightarrow> rewriter" where
  "emitRemark h msg st =
     st\<lparr>diagnostics := diagnostics st @
          [\<lparr>diag_severity = Remark, diag_op = h, diag_message = msg\<rparr>]\<rparr>"

definition replaceOp :: "nat \<Rightarrow> rewriter \<Rightarrow> rewriter" where
  "replaceOp h st = st\<lparr>replaced := replaced st @ [h]\<rparr>"

subsection \<open>Value mapping and cloning\<close>

type_synonym BlockAndValueMapping = "(mlir_value \<times> mlir_value) list"

definition map_values ::
  "mlir_value list \<Rightarrow> mlir_value list \<Rightarrow> BlockAndValueMapping \<Rightarrow> BlockAndValueMapping" where
  "map_values from to mapping = rev (zip from to) @ mapping"

definition lookupOrDefault :: "BlockAndValueMapping \<Rightarrow> mlir_value \<Rightarrow> mlir_value" where
  "lookupOrDefault mapping v = (case map_of mapping v of None \<Rightarrow> v | Some w \<Rightarrow> w)"

definition contains :: "BlockAndValueMapping \<Rightarrow> mlir_value \<Rightarrow> bool" where
  "contains mapping v = (map_of mapping v \<noteq> None)"

text \<open>
  \<^verbatim>\<open>Operation::clone(mapper)\<close> is a deep copy. The copy of an operation has the same
  name and attributes, its operands looked up in the mapper and fresh results of the
  same types, which the mapper then records; after that every region is copied by
  \<^verbatim>\<open>Region::cloneInto\<close>: a new block that gets a fresh argument, recorded in the
  mapper, for every argument of the original block that the mapper does not contain
  yet, and then the copies of the operations of the block, in order. The copy is
  built detached: it reads the blocks of the original and writes new blocks only.
  \<^verbatim>\<open>cloneInto\<close> ends with a pass that looks the operands of the copies up once
  more; the copies took their operands from the mapper when they were made, and what
  the mapper yields are values made for the copy, so the pass has nothing to replace
  and is left out. Regions nest as a forest in a module, so the recursion is given a
  depth; a store whose regions nest deeper than that makes it stop with \<open>None\<close>.
\<close>

fun clone_ops ::
  "nat \<Rightarrow> (block_ref \<Rightarrow> mlir_value list) \<Rightarrow> (block_ref \<Rightarrow> operation list) \<Rightarrow> operation list
     \<Rightarrow> BlockAndValueMapping \<Rightarrow> rewriter
     \<Rightarrow> (operation list \<times> BlockAndValueMapping \<times> rewriter) option"
and clone_regions ::
  "nat \<Rightarrow> (block_ref \<Rightarrow> mlir_value list) \<Rightarrow> (block_ref \<Rightarrow> operation list) \<Rightarrow> block_ref list
     \<Rightarrow> BlockAndValueMapping \<Rightarrow> rewriter
     \<Rightarrow> (block_ref list \<times> BlockAndValueMapping \<times> rewriter) option" where
  "clone_ops depth src_args src_ops [] mapper st = Some ([], mapper, st)"
| "clone_ops depth src_args src_ops (oper # rest) mapper st =
     (let new_operands = map (lookupOrDefault mapper) (op_operands oper);
          (rs, st1) = fresh_values (map getType (op_results oper)) st;
          mapper1 = map_values (op_results oper) rs mapper
      in
     (case clone_regions depth src_args src_ops (op_regions oper) mapper1 st1 of
        None \<Rightarrow> None
      | Some (regs, mapper2, st2) \<Rightarrow>
     (case clone_ops depth src_args src_ops rest mapper2 st2 of
        None \<Rightarrow> None
      | Some (cs, mapper3, st3) \<Rightarrow>
          Some (\<lparr>op_name = op_name oper, op_operands = new_operands, op_results = rs,
                  op_regions = regs\<rparr> # cs, mapper3, st3))))"
| "clone_regions depth src_args src_ops [] mapper st = Some ([], mapper, st)"
| "clone_regions 0 src_args src_ops (r # rs) mapper st = None"
| "clone_regions (Suc depth) src_args src_ops (r # rs) mapper st =
     (let new_args = filter (\<lambda>arg. \<not> contains mapper arg) (src_args r);
          (b, st1) = new_block (map getType new_args) [] st;
          mapper1 = map_values new_args (block_args st1 b) mapper
      in
     (case clone_ops depth src_args src_ops (src_ops r) mapper1 st1 of
        None \<Rightarrow> None
      | Some (cs, mapper2, st2) \<Rightarrow>
     (let st3 = st2\<lparr>block_ops := (block_ops st2)(b := cs)\<rparr> in
     (case clone_regions (Suc depth) src_args src_ops rs mapper2 st3 of
        None \<Rightarrow> None
      | Some (bs, mapper3, st4) \<Rightarrow> Some (b # bs, mapper3, st4)))))"

text \<open>
  \<^verbatim>\<open>rewriter->clone(op, mapping)\<close>: the deep copy of the operation, inserted at the
  insertion point. No chain of nested regions is longer than the number of blocks of
  the module, which is the depth given to the copy.
\<close>

definition clone ::
  "operation \<Rightarrow> BlockAndValueMapping \<Rightarrow> rewriter \<Rightarrow> (operation \<times> BlockAndValueMapping) result" where
  "clone oper mapping st =
     (case clone_ops (next_block st) (block_args st) (block_ops st) [oper] mapping st of
        None \<Rightarrow> Inl (RegionCycle, st)
      | Some (cs, mapping1, st1) \<Rightarrow>
          (let pt = insertion_point st1
           in Inr ((hd cs, mapping1),
                   (insert_at pt (hd cs) st1)\<lparr>insertion_point := (fst pt, Suc (snd pt))\<rparr>)))"

subsection \<open>The LHLO operations\<close>

record lhlo_ReduceOp =
  reduce_handle :: nat
  operands :: "mlir_value list"
  init_values :: "mlir_value list"
  out :: "mlir_value list"
  dimensions :: "int list"
  body :: block_ref

record lhlo_ReduceWindowOp =
  rw_handle :: nat
  rw_operand :: mlir_value
  rw_init_value :: mlir_value
  rw_out :: mlir_value
  window_dimensions :: "int list"
  window_strides :: "int list option"
  base_dilations :: "int list option"
  window_dilations :: "int list option"
  padding :: "int list list option"
  rw_body :: block_ref

subsection \<open>ConvertToReductionOperator\<close>

fun clone_without_terminator ::
  "operation list \<Rightarrow> BlockAndValueMapping \<Rightarrow> rewriter \<Rightarrow> BlockAndValueMapping result" where
  "clone_without_terminator [] mapping st = Inr (mapping, st)"
| "clone_without_terminator (nested # rest) mapping st =
     (case clone nested mapping st of
        Inl e \<Rightarrow> Inl e
      | Inr ((c, mapping1), st1) \<Rightarrow>
          clone_without_terminator rest
            (map_values (op_results nested) (op_results c) mapping1) st1)"

definition getArgument :: "rewriter \<Rightarrow> block_ref \<Rightarrow> nat \<Rightarrow> mlir_value option" where
  "getArgument st b i = (if i < length (block_args st b) then Some (block_args st b ! i) else None)"

definition isMemRef :: "type \<Rightarrow> bool" where
  "isMemRef t = (case t of MemRefType shape elem \<Rightarrow> True | _ \<Rightarrow> False)"

definition getShape :: "type \<Rightarrow> int list" where
  "getShape t = (case t of MemRefType shape elem \<Rightarrow> shape | _ \<Rightarrow> [])"

definition getElementType :: "type \<Rightarrow> type" where
  "getElementType t = (case t of MemRefType shape elem \<Rightarrow> elem | _ \<Rightarrow> t)"

text \<open>
  \<^verbatim>\<open>LoadOp::build\<close> casts the type of its buffer to a memref type to find the type of
  the result.
\<close>

definition create_LoadOp :: "mlir_value \<Rightarrow> mlir_value list \<Rightarrow> rewriter \<Rightarrow> mlir_value result" where
  "create_LoadOp memref indices st =
     (if isMemRef (getType memref)
      then Inr (create1 LoadOp (memref # indices) (getElementType (getType memref)) st)
      else Inl (BadCast, st))"

definition ConvertToReductionOperator ::
  "operation \<Rightarrow> block_ref \<Rightarrow> rewriter \<Rightarrow> unit result" where
  "ConvertToReductionOperator reduce_op lhlo_block st0 =
     (case op_regions reduce_op of
        [] \<Rightarrow> Inl (EmptyRange, st0)
      | loop_reduce_op_body # _ \<Rightarrow>
     (let st = setInsertionPointToStart loop_reduce_op_body st0 in
     (case getArgument st lhlo_block 0 of
        None \<Rightarrow> Inl (OutOfRange, st)
      | Some elem_arg \<Rightarrow>
      if \<not> isMemRef (getType elem_arg) then Inl (BadCast, st) else
     (let (elem_buf, st1) = create1 AllocOp [] (getType elem_arg) st in
     (case getArgument st1 loop_reduce_op_body 0 of
        None \<Rightarrow> Inl (OutOfRange, st1)
      | Some arg0 \<Rightarrow>
     (let st2 = create0 StoreOp [arg0, elem_buf] st1 in
     (case getArgument st2 lhlo_block 1 of
        None \<Rightarrow> Inl (OutOfRange, st2)
      | Some acc_arg \<Rightarrow>
      if \<not> isMemRef (getType acc_arg) then Inl (BadCast, st2) else
     (let (acc_buf, st3) = create1 AllocOp [] (getType acc_arg) st2 in
     (case getArgument st3 loop_reduce_op_body 1 of
        None \<Rightarrow> Inl (OutOfRange, st3)
      | Some arg1 \<Rightarrow>
     (let st4 = create0 StoreOp [arg1, acc_buf] st3;
          mapping = map_values (block_args st4 lhlo_block) [elem_buf, acc_buf, acc_buf] []
      in
     (case clone_without_terminator (butlast (block_ops st4 lhlo_block)) mapping st4 of
        Inl e \<Rightarrow> Inl e
      | Inr (mapping', st5) \<Rightarrow>
     (case create_LoadOp acc_buf [] st5 of
        Inl e \<Rightarrow> Inl e
      | Inr (acc_result, st6) \<Rightarrow>
          Inr ((), create0 ReduceReturnOp [acc_result] st6)))))))))))))"

subsection \<open>GetStaticOrDynamicDim\<close>

definition GetStaticOrDynamicDim ::
  "mlir_value \<Rightarrow> nat \<Rightarrow> int \<Rightarrow> rewriter \<Rightarrow> mlir_value \<times> rewriter" where
  "GetStaticOrDynamicDim shaped_value dim_index dim st =
     (if dim = kDynamicSize
      then create1 (DimOp dim_index) [shaped_value] IndexType st
      else create1 (ConstantIndexOp dim) [] IndexType st)"

subsection \<open>ReduceOpConverter\<close>

text \<open>
  \<^verbatim>\<open>reducing_dims\<close> is a \<^verbatim>\<open>DenseSet<int>\<close>: the 64-bit attribute values and the axis
  indices are narrowed to 32 bits when they are inserted and looked up.
\<close>

definition to_int :: "int \<Rightarrow> int" where
  "to_int x = sint (word_of_int x :: 32 word)"

definition reducing_dims_of :: "lhlo_ReduceOp \<Rightarrow> int set" where
  "reducing_dims_of xla_reduce_op = set (map to_int (dimensions xla_reduce_op))"

definition count :: "int set \<Rightarrow> nat \<Rightarrow> bool" where
  "count reducing_dims i = (to_int (int i) \<in> reducing_dims)"

record bounds =
  parallel_lower :: "mlir_value list"
  parallel_upper :: "mlir_value list"
  parallel_step :: "mlir_value list"
  reduce_lower :: "mlir_value list"
  reduce_upper :: "mlir_value list"
  reduce_step :: "mlir_value list"

definition no_bounds :: bounds where
  "no_bounds = \<lparr>parallel_lower = [], parallel_upper = [], parallel_step = [],
                reduce_lower = [], reduce_upper = [], reduce_step = []\<rparr>"

text \<open>The loop over \<^verbatim>\<open>llvm::enumerate(operand_shape)\<close>.\<close>

fun partition_dims ::
  "int set \<Rightarrow> mlir_value \<Rightarrow> (nat \<times> int) list \<Rightarrow> bounds \<Rightarrow> rewriter \<Rightarrow> bounds \<times> rewriter" where
  "partition_dims reducing_dims operand [] bs st = (bs, st)"
| "partition_dims reducing_dims operand (dim # rest) bs st =
     (let is_reducing_dim = count reducing_dims (fst dim);
          (ub, st1) = GetStaticOrDynamicDim operand (fst dim) (snd dim) st;
          (lb, st2) = create1 (ConstantIndexOp 0) [] IndexType st1;
          (step, st3) = create1 (ConstantIndexOp 1) [] IndexType st2;
          bs1 = (if is_reducing_dim
                 then bs\<lparr>reduce_lower := reduce_lower bs @ [lb],
                         reduce_upper := reduce_upper bs @ [ub],
                         reduce_step := reduce_step bs @ [step]\<rparr>
                 else bs\<lparr>parallel_lower := parallel_lower bs @ [lb],
                         parallel_upper := parallel_upper bs @ [ub],
                         parallel_step := parallel_step bs @ [step]\<rparr>)
      in partition_dims reducing_dims operand rest bs1 st3)"

text \<open>
  The loop that rebuilds the operand indices. The two iterators are positions in the
  induction variables of the loops; the outer one is null when there is no outer loop.
\<close>

function load_indices ::
  "int set \<Rightarrow> mlir_value list option \<Rightarrow> mlir_value list \<Rightarrow> nat \<Rightarrow> nat \<Rightarrow> nat \<Rightarrow> nat
     \<Rightarrow> mlir_value list \<Rightarrow> error + mlir_value list" where
  "load_indices reducing_dims outer_ivs inner_ivs outer_ivs_it inner_ivs_it i e indices =
     (if i < e then
        (if count reducing_dims i then
           (if inner_ivs_it < length inner_ivs
            then load_indices reducing_dims outer_ivs inner_ivs outer_ivs_it (Suc inner_ivs_it)
                   (Suc i) e (indices @ [inner_ivs ! inner_ivs_it])
            else Inl OutOfRange)
         else
           (case outer_ivs of
              None \<Rightarrow> Inl NullIterator
            | Some ivs \<Rightarrow>
                if outer_ivs_it < length ivs
                then load_indices reducing_dims outer_ivs inner_ivs (Suc outer_ivs_it) inner_ivs_it
                       (Suc i) e (indices @ [ivs ! outer_ivs_it])
                else Inl OutOfRange))
      else Inr indices)"
  by pat_completeness auto
termination
  by (relation "measure (\<lambda>(rd, ov, iv, oi, ii, i, e, ind). e - i)") auto

definition Reduce_CreateReduceOpInNestedParallelLoops ::
  "lhlo_ReduceOp \<Rightarrow> rewriter \<Rightarrow> operation result" where
  "Reduce_CreateReduceOpInNestedParallelLoops xla_reduce_op st =
     (let reducing_dims = reducing_dims_of xla_reduce_op in
     (case operands xla_reduce_op of
        [] \<Rightarrow> Inl (EmptyRange, st)
      | operand # _ \<Rightarrow>
     (case out xla_reduce_op of
        [] \<Rightarrow> Inl (EmptyRange, st)
      | outv # _ \<Rightarrow>
      if \<not> isMemRef (getType operand) then Inl (BadCast, st) else
     (let operand_shape = getShape (getType operand);
          (bs, st1) = partition_dims reducing_dims operand (enumerate 0 operand_shape) no_bounds st
      in
     (case init_values xla_reduce_op of
        [] \<Rightarrow> Inl (EmptyRange, st1)
      | init # _ \<Rightarrow>
     (case create_LoadOp init [] st1 of
        Inl e \<Rightarrow> Inl e
      | Inr (init_value, st2) \<Rightarrow>
     (let (outer, st3) =
            (if parallel_lower bs \<noteq> [] then
               (let (l, s) = create_ParallelOp (parallel_lower bs) (parallel_upper bs)
                               (parallel_step bs) [] st2
                in (Some l, setInsertionPointToStart (getBody l) s))
             else (None, st2));
          (inner, st4) = create_ParallelOp (reduce_lower bs) (reduce_upper bs) (reduce_step bs)
                           [init_value] st3;
          reduction_result = hd (op_results inner);
          (out_indices, st5) =
            (case outer of
               Some l \<Rightarrow> (getInductionVars st4 l, st4)
             | None \<Rightarrow> (let (c, s) = create1 (ConstantIndexOp 0) [] IndexType st4 in ([c], s)));
          st6 = create0 StoreOp ([reduction_result, outv] @ out_indices) st5
      in
     (case load_indices reducing_dims (map_option (getInductionVars st6) outer)
             (getInductionVars st6 inner) 0 0 0 (length operand_shape) [] of
        Inl e \<Rightarrow> Inl (e, st6)
      | Inr indices \<Rightarrow>
     (let st7 = setInsertionPointToStart (getBody inner) st6 in
     (case create_LoadOp operand indices st7 of
        Inl e \<Rightarrow> Inl e
      | Inr (elem, st8) \<Rightarrow> Inr (create_ReduceOp elem st8)))))))))))"

definition Reduce_matchAndRewrite :: "lhlo_ReduceOp \<Rightarrow> rewriter \<Rightarrow> LogicalResult result" where
  "Reduce_matchAndRewrite xla_reduce_op st =
     (if length (out xla_reduce_op) \<noteq> 1 then Inr (failure, st)
      else
       (case Reduce_CreateReduceOpInNestedParallelLoops xla_reduce_op st of
          Inl e \<Rightarrow> Inl e
        | Inr (reduce_op, st1) \<Rightarrow>
       (case ConvertToReductionOperator reduce_op (body xla_reduce_op) st1 of
          Inl e \<Rightarrow> Inl e
        | Inr (u, st2) \<Rightarrow> Inr (success, replaceOp (reduce_handle xla_reduce_op) st2))))"

subsection \<open>ReduceWindowOpConverter\<close>

text \<open>The loop over the output shape: every axis starts at \<open>zero\<close> and steps by \<open>one\<close>.\<close>

fun output_bounds ::
  "mlir_value \<Rightarrow> mlir_value \<Rightarrow> mlir_value \<Rightarrow> (nat \<times> int) list \<Rightarrow> bounds \<Rightarrow> rewriter
     \<Rightarrow> bounds \<times> rewriter" where
  "output_bounds xla_output zero one [] bs st = (bs, st)"
| "output_bounds xla_output zero one (dim # rest) bs st =
     (let (ub, st1) = GetStaticOrDynamicDim xla_output (fst dim) (snd dim) st;
          bs1 = bs\<lparr>parallel_upper := parallel_upper bs @ [ub],
                  parallel_lower := parallel_lower bs @ [zero],
                  parallel_step := parallel_step bs @ [one]\<rparr>
      in output_bounds xla_output zero one rest bs1 st1)"

text \<open>The loop over \<^verbatim>\<open>window_dimensions\<close>; the window bounds use the reduce lists.\<close>

fun window_bounds ::
  "mlir_value \<Rightarrow> mlir_value \<Rightarrow> int list \<Rightarrow> bounds \<Rightarrow> rewriter \<Rightarrow> bounds \<times> rewriter" where
  "window_bounds zero one [] bs st = (bs, st)"
| "window_bounds zero one (window_dim # rest) bs st =
     (let (ub, st1) = create1 (ConstantIndexOp window_dim) [] IndexType st;
          bs1 = bs\<lparr>reduce_step := reduce_step bs @ [one],
                  reduce_lower := reduce_lower bs @ [zero],
                  reduce_upper := reduce_upper bs @ [ub]\<rparr>
      in window_bounds zero one rest bs1 st1)"

definition CreateParallelLoopsToTraverseOutputAndWindow ::
  "lhlo_ReduceWindowOp \<Rightarrow> rewriter \<Rightarrow> (operation \<times> operation) result" where
  "CreateParallelLoopsToTraverseOutputAndWindow xla_reduce_window_op st =
     (case create_LoadOp (rw_init_value xla_reduce_window_op) [] st of
        Inl e \<Rightarrow> Inl e
      | Inr (init_value, st1) \<Rightarrow>
     (let (zero, st2) = create1 (ConstantIndexOp 0) [] IndexType st1;
          (one, st3) = create1 (ConstantIndexOp 1) [] IndexType st2;
          xla_output = rw_out xla_reduce_window_op
      in
      if \<not> isMemRef (getType xla_output) then Inl (BadCast, st3) else
     (let output_shape = getShape (getType xla_output);
          (bs, st4) = output_bounds xla_output zero one (enumerate 0 output_shape) no_bounds st3;
          (output_loop, st5) = create_ParallelOp (parallel_lower bs) (parallel_upper bs)
                                 (parallel_step bs) [] st4;
          st6 = setInsertionPointToStart (getBody output_loop) st5;
          (ws, st7) = window_bounds zero one (window_dimensions xla_reduce_window_op) no_bounds st6;
          (window_loop, st8) = create_ParallelOp (reduce_lower ws) (reduce_upper ws)
                                 (reduce_step ws) [init_value] st7;
          reduction_result = hd (op_results window_loop);
          output_ivs = getInductionVars st8 output_loop;
          st9 = create0 StoreOp ([reduction_result, xla_output] @ output_ivs) st8
      in Inr ((output_loop, window_loop), st9))))"

definition getNumLoops :: "operation \<Rightarrow> nat" where
  "getNumLoops oper = (case op_name oper of ParallelOp nl nu ns ni \<Rightarrow> ns | _ \<Rightarrow> 0)"

text \<open>
  \<^verbatim>\<open>padding.getValue<llvm::APInt>({i, 0})\<close> on the rows of the padding attribute.
\<close>

definition pad_low_at :: "int list list \<Rightarrow> nat \<Rightarrow> int option" where
  "pad_low_at pad i =
     (if i < length pad then (case pad ! i of [] \<Rightarrow> None | low # _ \<Rightarrow> Some low) else None)"

text \<open>
  The loop over the output axes that emits the index arithmetic and the in-bounds
  flag. Every subscript of the source is checked where the source evaluates it.
\<close>

function operand_indices_loop ::
  "mlir_value \<Rightarrow> int list \<Rightarrow> mlir_value list \<Rightarrow> mlir_value list \<Rightarrow> int list \<Rightarrow> int list list
     \<Rightarrow> nat \<Rightarrow> nat \<Rightarrow> mlir_value list \<Rightarrow> mlir_value \<Rightarrow> rewriter
     \<Rightarrow> (mlir_value list \<times> mlir_value) result" where
  "operand_indices_loop xla_operand xla_operand_shape output_ivs window_ivs strides pad
       i e operand_indices in_bounds st =
     (if i < e then
        (if \<not> i < length strides then Inl (OutOfRange, st) else
        (case pad_low_at pad i of
           None \<Rightarrow> Inl (OutOfRange, st)
         | Some pad_low \<Rightarrow>
        (let (stride_val, st1) = create1 (ConstantIndexOp (strides ! i)) [] IndexType st;
             (pad_low_val, st2) = create1 (ConstantIndexOp pad_low) [] IndexType st1
         in
         if \<not> i < length output_ivs then Inl (OutOfRange, st2) else
        (let (center, st3) = create1 MulIOp [output_ivs ! i, stride_val]
                               (getType (output_ivs ! i)) st2
         in
         if \<not> i < length window_ivs then Inl (OutOfRange, st3) else
        (let (offset, st4) = create1 SubIOp [window_ivs ! i, pad_low_val]
                               (getType (window_ivs ! i)) st3;
             (index, st5) = create1 AddIOp [center, offset] (getType center) st4
         in
         if \<not> i < length xla_operand_shape then Inl (OutOfRange, st5) else
        (let (upper_bound, st6) = GetStaticOrDynamicDim xla_operand i (xla_operand_shape ! i) st5;
             (cmp, st7) = create1 (CmpIOp ult) [index, upper_bound] (IntegerType 1) st6;
             (in_bounds1, st8) = create1 AndOp [in_bounds, cmp] (getType in_bounds) st7
         in operand_indices_loop xla_operand xla_operand_shape output_ivs window_ivs strides pad
              (Suc i) e (operand_indices @ [index]) in_bounds1 st8))))))
      else Inr ((operand_indices, in_bounds), st))"
  by pat_completeness auto
termination
  by (relation "measure (\<lambda>(x, sh, ov, wv, s, p, i, e, ind, inb, st). e - i)") auto

text \<open>The builders of the two branches of the \<^verbatim>\<open>loop.if\<close> insert at the end of their block.\<close>

definition getBodyBuilder :: "rewriter \<Rightarrow> block_ref \<Rightarrow> block_ref \<times> nat" where
  "getBodyBuilder st b = (b, length (block_ops st b))"

definition dilation_message :: string where
  "dilation_message =
     ''Lowering to parallel loops does not support `base_dilations` or '' @
     ''`window_dilations` attributes yet. The attributes will be ignored.''"

definition Window_CreateReduceOpInNestedParallelLoops ::
  "lhlo_ReduceWindowOp \<Rightarrow> operation \<Rightarrow> operation \<Rightarrow> rewriter \<Rightarrow> operation result" where
  "Window_CreateReduceOpInNestedParallelLoops xla_reduce_window_op output_loop window_loop st0 =
     (let h = rw_handle xla_reduce_window_op;
          st = setInsertionPointToStart (getBody window_loop) st0;
          st1 = (if window_strides xla_reduce_window_op = None
                 then emitOpError h ''No window strides specified.'' st else st);
          st2 = (if padding xla_reduce_window_op = None
                 then emitOpError h ''No padding specified.'' st1 else st1);
          st3 = (if base_dilations xla_reduce_window_op \<noteq> None
                    \<or> window_dilations xla_reduce_window_op \<noteq> None
                 then emitRemark h dilation_message st2
                 else st2);
          xla_operand = rw_operand xla_reduce_window_op
      in
      if \<not> isMemRef (getType xla_operand) then Inl (BadCast, st3) else
     (let xla_operand_shape = getShape (getType xla_operand);
          output_ivs = getInductionVars st3 output_loop;
          window_ivs = getInductionVars st3 window_loop
      in
     (case window_strides xla_reduce_window_op of
        None \<Rightarrow> Inl (NoValue, st3)
      | Some strides \<Rightarrow>
     (case padding xla_reduce_window_op of
        None \<Rightarrow> Inl (NoValue, st3)
      | Some pad \<Rightarrow>
     (let (in_bounds0, st4) = create1 (ConstantOp 1) [] (IntegerType 1) st3 in
     (case operand_indices_loop xla_operand xla_operand_shape output_ivs window_ivs strides pad
             0 (getNumLoops output_loop) [] in_bounds0 st4 of
        Inl e \<Rightarrow> Inl e
      | Inr ((operand_indices, in_bounds), st5) \<Rightarrow>
     (let (elem_or_init, st6) =
            create_IfOp [getElementType (getType xla_operand)] in_bounds True st5;
          then_builder = getBodyBuilder st6 (op_regions elem_or_init ! 0);
          (load, then_builder1, st7) =
            create_at then_builder LoadOp (xla_operand # operand_indices)
              [getElementType (getType xla_operand)] [] st6;
          elem = hd (op_results load);
          (y1, then_builder2, st8) = create_at then_builder1 YieldOp [elem] [] [] st7;
          else_builder = getBodyBuilder st8 (op_regions elem_or_init ! 1)
      in
     (case initVals window_loop of
        [] \<Rightarrow> Inl (EmptyRange, st8)
      | init # _ \<Rightarrow>
     (let (y2, else_builder1, st9) = create_at else_builder YieldOp [init] [] [] st8
      in Inr (create_ReduceOp (hd (op_results elem_or_init)) st9))))))))))"

definition Window_matchAndRewrite ::
  "lhlo_ReduceWindowOp \<Rightarrow> rewriter \<Rightarrow> LogicalResult result" where
  "Window_matchAndRewrite xla_reduce_window_op st =
     (case CreateParallelLoopsToTraverseOutputAndWindow xla_reduce_window_op st of
        Inl e \<Rightarrow> Inl e
      | Inr ((output_loop, window_loop), st1) \<Rightarrow>
     (case Window_CreateReduceOpInNestedParallelLoops xla_reduce_window_op output_loop
             window_loop st1 of
        Inl e \<Rightarrow> Inl e
      | Inr (reduce_op, st2) \<Rightarrow>
     (case ConvertToReductionOperator reduce_op (rw_body xla_reduce_window_op) st2 of
        Inl e \<Rightarrow> Inl e
      | Inr (u, st3) \<Rightarrow> Inr (success, replaceOp (rw_handle xla_reduce_window_op) st3))))"

section \<open>Meaning of the emitted index arithmetic\<close>

text \<open>
  The operations that the windowed converter writes into the body of the window loop
  are given their usual meaning: \<open>index\<close> values are machine words of some width
  \<open>'w\<close> (arithmetic wraps, \<open>ult\<close> compares unsigned), the run-time extents of the
  buffers and their contents are parameters. An environment maps SSA values to what
  they hold at one iteration.
\<close>

datatype ('i, 'e) rv = IndexV 'i | BoolV bool | ElemV 'e

record ('i, 'e) machine =
  dim_of :: "mlir_value \<Rightarrow> nat \<Rightarrow> 'i"
  memory :: "mlir_value \<Rightarrow> 'i list \<Rightarrow> 'e"

type_synonym ('w, 'e) env = "mlir_value \<Rightarrow> ('w word, 'e) rv option"

definition index_arg :: "('w, 'e) env \<Rightarrow> mlir_value \<Rightarrow> 'w word option" where
  "index_arg env v = (case env v of Some (IndexV a) \<Rightarrow> Some a | _ \<Rightarrow> None)"

definition bool_arg :: "('w, 'e) env \<Rightarrow> mlir_value \<Rightarrow> bool option" where
  "bool_arg env v = (case env v of Some (BoolV a) \<Rightarrow> Some a | _ \<Rightarrow> None)"

definition compare :: "CmpIPredicate \<Rightarrow> 'w::len word \<Rightarrow> 'w word \<Rightarrow> bool" where
  "compare p a b = (case p of ult \<Rightarrow> a < b | slt \<Rightarrow> sint a < sint b)"

definition exec_flat ::
  "('w::len word, 'e) machine \<Rightarrow> ('w, 'e) env \<Rightarrow> operation \<Rightarrow> ('w, 'e) env option" where
  "exec_flat M env oper =
     (case op_results oper of
        [r] \<Rightarrow>
          (case op_name oper of
             ConstantIndexOp c \<Rightarrow> Some (env(r \<mapsto> IndexV (of_int c)))
           | ConstantOp c \<Rightarrow>
               (if getType r = IntegerType 1 then Some (env(r \<mapsto> BoolV (c \<noteq> 0))) else None)
           | DimOp i \<Rightarrow>
               (case op_operands oper of
                  [m] \<Rightarrow> Some (env(r \<mapsto> IndexV (dim_of M m i)))
                | _ \<Rightarrow> None)
           | MulIOp \<Rightarrow>
               (case those (map (index_arg env) (op_operands oper)) of
                  Some [a, b] \<Rightarrow> Some (env(r \<mapsto> IndexV (a * b)))
                | _ \<Rightarrow> None)
           | SubIOp \<Rightarrow>
               (case those (map (index_arg env) (op_operands oper)) of
                  Some [a, b] \<Rightarrow> Some (env(r \<mapsto> IndexV (a - b)))
                | _ \<Rightarrow> None)
           | AddIOp \<Rightarrow>
               (case those (map (index_arg env) (op_operands oper)) of
                  Some [a, b] \<Rightarrow> Some (env(r \<mapsto> IndexV (a + b)))
                | _ \<Rightarrow> None)
           | CmpIOp p \<Rightarrow>
               (case those (map (index_arg env) (op_operands oper)) of
                  Some [a, b] \<Rightarrow> Some (env(r \<mapsto> BoolV (compare p a b)))
                | _ \<Rightarrow> None)
           | AndOp \<Rightarrow>
               (case those (map (bool_arg env) (op_operands oper)) of
                  Some [a, b] \<Rightarrow> Some (env(r \<mapsto> BoolV (a \<and> b)))
                | _ \<Rightarrow> None)
           | LoadOp \<Rightarrow>
               (case op_operands oper of
                  [] \<Rightarrow> None
                | m # indices \<Rightarrow>
                    (case those (map (index_arg env) indices) of
                       Some is \<Rightarrow> Some (env(r \<mapsto> ElemV (memory M m is)))
                     | None \<Rightarrow> None))
           | _ \<Rightarrow> None)
      | _ \<Rightarrow> None)"

text \<open>A branch of a \<^verbatim>\<open>loop.if\<close>: straight-line operations, then the yield of one value.\<close>

fun exec_region ::
  "('w::len word, 'e) machine \<Rightarrow> ('w, 'e) env \<Rightarrow> operation list \<Rightarrow> ('w word, 'e) rv option" where
  "exec_region M env [] = None"
| "exec_region M env (oper # rest) =
     (if op_name oper = YieldOp then
        (case (op_operands oper, rest) of ([v], []) \<Rightarrow> env v | _ \<Rightarrow> None)
      else
        (case exec_flat M env oper of
           None \<Rightarrow> None
         | Some env1 \<Rightarrow> exec_region M env1 rest))"

definition exec_op ::
  "('w::len word, 'e) machine \<Rightarrow> rewriter \<Rightarrow> ('w, 'e) env \<Rightarrow> operation \<Rightarrow> ('w, 'e) env option" where
  "exec_op M st env oper =
     (if op_name oper = IfOp then
        (case (op_operands oper, op_regions oper, op_results oper) of
           ([c], [thenRegion, elseRegion], [r]) \<Rightarrow>
             (case bool_arg env c of
                None \<Rightarrow> None
              | Some b \<Rightarrow>
                  (case exec_region M env (block_ops st (if b then thenRegion else elseRegion)) of
                     None \<Rightarrow> None
                   | Some x \<Rightarrow> Some (env(r \<mapsto> x))))
         | _ \<Rightarrow> None)
      else exec_flat M env oper)"

text \<open>
  The value handed to the reduction: run the body of the loop up to its
  \<^verbatim>\<open>loop.reduce\<close> and read the operand of that operation.
\<close>

fun fed_to_reduce ::
  "('w::len word, 'e) machine \<Rightarrow> rewriter \<Rightarrow> ('w, 'e) env \<Rightarrow> operation list \<Rightarrow> ('w word, 'e) rv option" where
  "fed_to_reduce M st env [] = None"
| "fed_to_reduce M st env (oper # rest) =
     (if op_name oper = ReduceOp then
        (case op_operands oper of [v] \<Rightarrow> env v | _ \<Rightarrow> None)
      else
        (case exec_op M st env oper of
           None \<Rightarrow> None
         | Some env1 \<Rightarrow> fed_to_reduce M st env1 rest))"

section \<open>Comparing outcomes\<close>

definition final_state :: "'a result \<Rightarrow> rewriter" where
  "final_state r = (case r of Inl (e, st) \<Rightarrow> st | Inr (x, st) \<Rightarrow> st)"

definition without_diagnostics :: "'a result \<Rightarrow> 'a result" where
  "without_diagnostics r =
     (case r of
        Inl (e, st) \<Rightarrow> Inl (e, st\<lparr>diagnostics := []\<rparr>)
      | Inr (x, st) \<Rightarrow> Inr (x, st\<lparr>diagnostics := []\<rparr>))"

definition ignore_dilations :: "lhlo_ReduceWindowOp \<Rightarrow> lhlo_ReduceWindowOp" where
  "ignore_dilations xla_reduce_window_op =
     xla_reduce_window_op\<lparr>base_dilations := None, window_dilations := None\<rparr>"

definition dilation_remark :: "nat \<Rightarrow> diagnostic" where
  "dilation_remark h =
     \<lparr>diag_severity = Remark, diag_op = h, diag_message = dilation_message\<rparr>"

definition missing_attribute_errors :: "lhlo_ReduceWindowOp \<Rightarrow> diagnostic list" where
  "missing_attribute_errors xla_reduce_window_op =
     (if window_strides xla_reduce_window_op = None
      then [\<lparr>diag_severity = Error, diag_op = rw_handle xla_reduce_window_op,
             diag_message = ''No window strides specified.''\<rparr>]
      else []) @
     (if padding xla_reduce_window_op = None
      then [\<lparr>diag_severity = Error, diag_op = rw_handle xla_reduce_window_op,
             diag_message = ''No padding specified.''\<rparr>]
      else [])"

text \<open>The remark that the windowed converter reports when a dilation attribute is present.\<close>

definition remark_if_dilated :: "lhlo_ReduceWindowOp \<Rightarrow> diagnostic list" where
  "remark_if_dilated w =
     (if base_dilations w \<noteq> None \<or> window_dilations w \<noteq> None
      then [dilation_remark (rw_handle w)] else [])"

text \<open>Overwriting the diagnostics of an outcome, and of a rewriter.\<close>

definition set_diagnostics :: "diagnostic list \<Rightarrow> 'a result \<Rightarrow> 'a result" where
  "set_diagnostics D r =
     (case r of
        Inl (e, st) \<Rightarrow> Inl (e, st\<lparr>diagnostics := D\<rparr>)
      | Inr (x, st) \<Rightarrow> Inr (x, st\<lparr>diagnostics := D\<rparr>))"

definition with_diagnostics :: "diagnostic list \<Rightarrow> rewriter \<Rightarrow> rewriter" where
  "with_diagnostics D st = st\<lparr>diagnostics := D\<rparr>"

section \<open>Example inputs\<close>

definition f32 :: type where
  "f32 = FloatType 32"

definition scalar_buffer :: type where
  "scalar_buffer = MemRefType [] f32"

definition other_op :: "string \<Rightarrow> mlir_value list \<Rightarrow> block_ref list \<Rightarrow> operation" where
  "other_op n args regs =
     \<lparr>op_name = OtherOp n, op_operands = args, op_results = [], op_regions = regs\<rparr>"

text \<open>
  A function whose entry block (block 0) holds one reduction and a return; block 1 is
  the body of the reduction, a maximum of two scalar buffers.
\<close>

definition example_rewriter :: "type \<Rightarrow> type \<Rightarrow> rewriter" where
  "example_rewriter operand_type out_type =
     \<lparr>block_args = (\<lambda>b.
          if b = 0 then [Value 0 operand_type, Value 1 scalar_buffer, Value 2 out_type]
          else if b = 1 then [Value 3 scalar_buffer, Value 4 scalar_buffer, Value 5 scalar_buffer]
          else []),
      block_ops = (\<lambda>b.
          if b = 0 then
            [other_op ''reduction''
               [Value 0 operand_type, Value 1 scalar_buffer, Value 2 out_type] [1],
             other_op ''std.return'' [] []]
          else if b = 1 then
            [other_op ''xla_lhlo.maximum''
               [Value 3 scalar_buffer, Value 4 scalar_buffer, Value 5 scalar_buffer] [],
             other_op ''xla_lhlo.terminator'' [] []]
          else []),
      next_value = 6, next_block = 2, insertion_point = (0, 0),
      diagnostics = [], replaced = []\<rparr>"

definition example_reduce :: "int list \<Rightarrow> int list \<Rightarrow> int list \<Rightarrow> lhlo_ReduceOp" where
  "example_reduce operand_shape out_shape dims =
     \<lparr>reduce_handle = 0,
      operands = [Value 0 (MemRefType operand_shape f32)],
      init_values = [Value 1 scalar_buffer],
      out = [Value 2 (MemRefType out_shape f32)],
      dimensions = dims, body = 1\<rparr>"

definition example_window :: "int list option \<Rightarrow> int list list option \<Rightarrow> lhlo_ReduceWindowOp" where
  "example_window strides pad =
     \<lparr>rw_handle = 0,
      rw_operand = Value 0 (MemRefType [112, 112] f32),
      rw_init_value = Value 1 scalar_buffer,
      rw_out = Value 2 (MemRefType [56, 56] f32),
      window_dimensions = [3, 3], window_strides = strides,
      base_dilations = None, window_dilations = None,
      padding = pad, rw_body = 1\<rparr>"

definition example_window_rewriter :: rewriter where
  "example_window_rewriter =
     example_rewriter (MemRefType [112, 112] f32) (MemRefType [56, 56] f32)"

section \<open>Closed forms of what the builder emits\<close>

text \<open>
  A run of \<open>create\<close> calls inserts a list of operations at the insertion point and
  draws consecutive fresh values. \<open>emit\<close> is that effect, \<open>mk_op\<close> an operation
  whose results are numbered from a given value on.
\<close>

definition ins :: "nat \<Rightarrow> 'a list \<Rightarrow> 'a list \<Rightarrow> 'a list" where
  "ins p new old = take p old @ new @ drop p old"

definition emit :: "operation list \<Rightarrow> nat \<Rightarrow> rewriter \<Rightarrow> rewriter" where
  "emit new k st =
     st\<lparr>block_ops := (block_ops st)
          (fst (insertion_point st) :=
             ins (snd (insertion_point st)) new (block_ops st (fst (insertion_point st)))),
        next_value := next_value st + k,
        insertion_point := (fst (insertion_point st), snd (insertion_point st) + length new)\<rparr>"

definition mk_op :: "opname \<Rightarrow> mlir_value list \<Rightarrow> nat \<Rightarrow> type list \<Rightarrow> block_ref list \<Rightarrow> operation" where
  "mk_op n args v tys regs =
     \<lparr>op_name = n, op_operands = args,
      op_results = map (\<lambda>(i, t). Value (v + i) t) (enumerate 0 tys), op_regions = regs\<rparr>"

text \<open>
  The three operations written for the axis \<open>k\<close> of extent \<open>d\<close> by the partition loop
  (upper bound, lower bound, step), and the values that end up in one of the bound
  lists: those of the axes from \<open>k\<close> on that satisfy \<open>P\<close>, \<open>off\<close> selecting the
  upper bound (0), the lower bound (1) or the step (2).
\<close>

primrec partition_ops :: "mlir_value \<Rightarrow> nat \<Rightarrow> nat \<Rightarrow> int list \<Rightarrow> operation list" where
  "partition_ops operand v k [] = []"
| "partition_ops operand v k (d # ds) =
     [mk_op (if d = kDynamicSize then DimOp k else ConstantIndexOp d)
        (if d = kDynamicSize then [operand] else []) v [IndexType] [],
      mk_op (ConstantIndexOp 0) [] (v + 1) [IndexType] [],
      mk_op (ConstantIndexOp 1) [] (v + 2) [IndexType] []] @
     partition_ops operand (v + 3) (Suc k) ds"

primrec axis_values :: "nat \<Rightarrow> nat \<Rightarrow> (nat \<Rightarrow> bool) \<Rightarrow> nat \<Rightarrow> nat \<Rightarrow> mlir_value list" where
  "axis_values v off P k 0 = []"
| "axis_values v off P k (Suc n) =
     (if P k then [Value (v + off) IndexType] else []) @ axis_values (v + 3) off P (Suc k) n"

text \<open>
  The position of an axis among the reduced and among the kept axes, and the operand
  coordinate the claim describes: axis \<open>i\<close> reads the inner induction variables at the
  number of reduced axes below \<open>i\<close> when it is reduced, and the outer ones at the
  number of kept axes below \<open>i\<close> otherwise.
\<close>

definition reduced_before :: "int set \<Rightarrow> nat \<Rightarrow> nat" where
  "reduced_before R i = length (filter (count R) [0..<i])"

definition kept_before :: "int set \<Rightarrow> nat \<Rightarrow> nat" where
  "kept_before R i = length (filter (\<lambda>j. \<not> count R j) [0..<i])"

definition interleaved ::
  "int set \<Rightarrow> mlir_value list \<Rightarrow> mlir_value list \<Rightarrow> nat \<Rightarrow> mlir_value" where
  "interleaved R outer_ivs inner_ivs i =
     (if count R i then inner_ivs ! reduced_before R i else outer_ivs ! kept_before R i)"

definition is_ParallelOp :: "opname \<Rightarrow> bool" where
  "is_ParallelOp n = (case n of ParallelOp nl nu ns ni \<Rightarrow> True | _ \<Rightarrow> False)"

definition loops_and_stores :: "operation list \<Rightarrow> operation list" where
  "loops_and_stores ops =
     filter (\<lambda>oper. is_ParallelOp (op_name oper) \<or> op_name oper = StoreOp) ops"

definition example_reduce_1 :: lhlo_ReduceOp where
  "example_reduce_1 = example_reduce [100, 10, 5] [100, 5] [1]"

definition example_rewriter_1 :: rewriter where
  "example_rewriter_1 = example_rewriter (MemRefType [100, 10, 5] f32) (MemRefType [100, 5] f32)"

definition example_reduce_all :: lhlo_ReduceOp where
  "example_reduce_all = example_reduce [10, 5] [1] [0, 1]"

definition example_rewriter_all :: rewriter where
  "example_rewriter_all = example_rewriter (MemRefType [10, 5] f32) (MemRefType [1] f32)"

primrec index_values :: "nat \<Rightarrow> nat \<Rightarrow> mlir_value list" where
  "index_values v 0 = []"
| "index_values v (Suc n) = Value v IndexType # index_values (Suc v) n"

primrec output_ops :: "mlir_value \<Rightarrow> nat \<Rightarrow> nat \<Rightarrow> int list \<Rightarrow> operation list" where
  "output_ops x v k [] = []"
| "output_ops x v k (d # ds) =
     mk_op (if d = kDynamicSize then DimOp k else ConstantIndexOp d)
       (if d = kDynamicSize then [x] else []) v [IndexType] [] #
     output_ops x (Suc v) (Suc k) ds"

primrec window_ops :: "nat \<Rightarrow> int list \<Rightarrow> operation list" where
  "window_ops v [] = []"
| "window_ops v (d # ds) = mk_op (ConstantIndexOp d) [] v [IndexType] [] # window_ops (Suc v) ds"

definition axis_index_ops ::
  "mlir_value \<Rightarrow> int list \<Rightarrow> mlir_value list \<Rightarrow> mlir_value list \<Rightarrow> int list \<Rightarrow> int list
     \<Rightarrow> nat \<Rightarrow> nat \<Rightarrow> mlir_value \<Rightarrow> operation list" where
  "axis_index_ops x shape ovs wvs strides lows v i inb =
     [mk_op (ConstantIndexOp (strides ! i)) [] v [IndexType] [],
      mk_op (ConstantIndexOp (lows ! i)) [] (v + 1) [IndexType] [],
      mk_op MulIOp [ovs ! i, Value v IndexType] (v + 2) [getType (ovs ! i)] [],
      mk_op SubIOp [wvs ! i, Value (v + 1) IndexType] (v + 3) [getType (wvs ! i)] [],
      mk_op AddIOp [Value (v + 2) (getType (ovs ! i)), Value (v + 3) (getType (wvs ! i))] (v + 4)
        [getType (ovs ! i)] [],
      mk_op (if shape ! i = kDynamicSize then DimOp i else ConstantIndexOp (shape ! i))
        (if shape ! i = kDynamicSize then [x] else []) (v + 5) [IndexType] [],
      mk_op (CmpIOp ult) [Value (v + 4) (getType (ovs ! i)), Value (v + 5) IndexType] (v + 6)
        [IntegerType 1] [],
      mk_op AndOp [inb, Value (v + 6) (IntegerType 1)] (v + 7) [getType inb] []]"

primrec index_ops ::
  "mlir_value \<Rightarrow> int list \<Rightarrow> mlir_value list \<Rightarrow> mlir_value list \<Rightarrow> int list \<Rightarrow> int list
     \<Rightarrow> nat \<Rightarrow> nat \<Rightarrow> nat \<Rightarrow> mlir_value \<Rightarrow> operation list" where
  "index_ops x shape ovs wvs strides lows v i 0 inb = []"
| "index_ops x shape ovs wvs strides lows v i (Suc n) inb =
     axis_index_ops x shape ovs wvs strides lows v i inb @
     index_ops x shape ovs wvs strides lows (v + 8) (Suc i) n (Value (v + 7) (getType inb))"

primrec index_results :: "mlir_value list \<Rightarrow> nat \<Rightarrow> nat \<Rightarrow> nat \<Rightarrow> mlir_value list" where
  "index_results ovs v i 0 = []"
| "index_results ovs v i (Suc n) =
     Value (v + 4) (getType (ovs ! i)) # index_results ovs (v + 8) (Suc i) n"

definition last_in_bounds :: "nat \<Rightarrow> nat \<Rightarrow> mlir_value \<Rightarrow> mlir_value" where
  "last_in_bounds v n inb = (if n = 0 then inb else Value (v + 8 * n - 1) (getType inb))"

definition numbered :: "nat \<Rightarrow> type list \<Rightarrow> mlir_value list" where
  "numbered v tys = map (\<lambda>(i, t). Value (v + i) t) (enumerate 0 tys)"

fun run_flat ::
  "('w::len word, 'e) machine \<Rightarrow> ('w, 'e) env \<Rightarrow> operation list \<Rightarrow> ('w, 'e) env option" where
  "run_flat M env [] = Some env"
| "run_flat M env (oper # rest) =
     (case exec_flat M env oper of None \<Rightarrow> None | Some env1 \<Rightarrow> run_flat M env1 rest)"

definition operand_index ::
  "int list \<Rightarrow> int list \<Rightarrow> 'w::len word list \<Rightarrow> 'w word list \<Rightarrow> nat \<Rightarrow> 'w word" where
  "operand_index strides lows os ws j = os ! j * of_int (strides ! j) + (ws ! j - of_int (lows ! j))"

definition operand_extent ::
  "('w::len word, 'e) machine \<Rightarrow> mlir_value \<Rightarrow> int list \<Rightarrow> nat \<Rightarrow> 'w word" where
  "operand_extent M x shape j =
     (if shape ! j = kDynamicSize then dim_of M x j else of_int (shape ! j))"

definition in_bounds_unsigned ::
  "('w::len word, 'e) machine \<Rightarrow> mlir_value \<Rightarrow> int list \<Rightarrow> int list \<Rightarrow> int list
     \<Rightarrow> 'w word list \<Rightarrow> 'w word list \<Rightarrow> nat \<Rightarrow> bool" where
  "in_bounds_unsigned M x shape strides lows os ws n =
     list_all (\<lambda>j. operand_index strides lows os ws j < operand_extent M x shape j) [0..<n]"

definition in_bounds_two_sided ::
  "('w::len word, 'e) machine \<Rightarrow> mlir_value \<Rightarrow> int list \<Rightarrow> int list \<Rightarrow> int list
     \<Rightarrow> 'w word list \<Rightarrow> 'w word list \<Rightarrow> nat \<Rightarrow> bool" where
  "in_bounds_two_sided M x shape strides lows os ws n =
     list_all (\<lambda>j. 0 \<le> sint (operand_index strides lows os ws j) \<and>
                   sint (operand_index strides lows os ws j) < sint (operand_extent M x shape j))
       [0..<n]"

definition extents_non_negative ::
  "('w::len word, 'e) machine \<Rightarrow> mlir_value \<Rightarrow> int list \<Rightarrow> nat \<Rightarrow> bool" where
  "extents_non_negative M x shape n =
     list_all (\<lambda>j. 0 \<le> sint (operand_extent M x shape j)) [0..<n]"

definition example_machine :: "(64 word, int) machine" where
  "example_machine = \<lparr>dim_of = (\<lambda>m i. 0), memory = (\<lambda>m indices. 7)\<rparr>"

definition example_env :: "(64, int) env" where
  "example_env x =
     (case getType x of
        IndexType \<Rightarrow> Some (IndexV 0)
      | FloatType k \<Rightarrow> Some (ElemV (- 1))
      | _ \<Rightarrow> None)"

definition example_window_padded :: lhlo_ReduceWindowOp where
  "example_window_padded = example_window (Some [2, 2]) (Some [[1, 1], [1, 1]])"

subsection \<open>Well-formed reduction bodies and what cloning leaves alone\<close>

text \<open>
  The regions nested below a list of operations are well formed to depth \<open>d\<close> for
  a set \<open>P\<close> of blocks when every region met within \<open>d\<close> levels is a block of \<open>P\<close>
  and no operation at level \<open>d\<close> has a region. \<open>defined_in\<close> collects the values
  defined in the blocks of \<open>P\<close>: their arguments and the results of their operations.
\<close>

fun regions_ok ::
  "nat \<Rightarrow> (block_ref \<Rightarrow> bool) \<Rightarrow> (block_ref \<Rightarrow> operation list) \<Rightarrow> block_ref list \<Rightarrow> bool" where
  "regions_ok 0 P B regs = (regs = [])"
| "regions_ok (Suc d) P B regs =
     list_all (\<lambda>r. P r \<and> list_all (\<lambda>oper. regions_ok d P B (op_regions oper)) (B r)) regs"

definition ops_ok ::
  "nat \<Rightarrow> (block_ref \<Rightarrow> bool) \<Rightarrow> (block_ref \<Rightarrow> operation list) \<Rightarrow> operation list \<Rightarrow> bool" where
  "ops_ok d P B ops = list_all (\<lambda>oper. regions_ok d P B (op_regions oper)) ops"

definition defined_in ::
  "(block_ref \<Rightarrow> bool) \<Rightarrow> (block_ref \<Rightarrow> mlir_value list) \<Rightarrow> (block_ref \<Rightarrow> operation list)
     \<Rightarrow> mlir_value set" where
  "defined_in P A B =
     {v. \<exists>r. P r \<and> (v \<in> set (A r) \<or> (\<exists>oper\<in>set (B r). v \<in> set (op_results oper)))}"

text \<open>
  \<open>grows st st'\<close>: the rewriter \<open>st'\<close> has the blocks of \<open>st\<close> unchanged and maybe new
  ones. \<open>inserted cs st st'\<close>: moreover the operations \<open>cs\<close> stand at the insertion
  point of \<open>st\<close>, and the insertion point of \<open>st'\<close> lies behind them.
  \<open>cloned_from K m c oper\<close>: \<open>c\<close> has the name, the result types and the number of
  regions of \<open>oper\<close>, and its operands are those of \<open>oper\<close> looked up in \<open>m\<close>
  extended by entries for values of \<open>K\<close>.
\<close>

definition grows :: "rewriter \<Rightarrow> rewriter \<Rightarrow> bool" where
  "grows st st' =
     (next_block st \<le> next_block st' \<and> next_value st \<le> next_value st' \<and>
      insertion_point st' = insertion_point st \<and> diagnostics st' = diagnostics st \<and>
      replaced st' = replaced st \<and>
      (\<forall>r<next_block st. block_ops st' r = block_ops st r \<and> block_args st' r = block_args st r))"

definition inserted :: "operation list \<Rightarrow> rewriter \<Rightarrow> rewriter \<Rightarrow> bool" where
  "inserted cs st st' =
     (next_block st \<le> next_block st' \<and> next_value st \<le> next_value st' \<and>
      insertion_point st' = (fst (insertion_point st), snd (insertion_point st) + length cs) \<and>
      diagnostics st' = diagnostics st \<and> replaced st' = replaced st \<and>
      (\<forall>r<next_block st. block_args st' r = block_args st r \<and>
         block_ops st' r = (if r = fst (insertion_point st)
                            then ins (snd (insertion_point st)) cs (block_ops st r)
                            else block_ops st r)))"

definition cloned_from ::
  "mlir_value set \<Rightarrow> BlockAndValueMapping \<Rightarrow> operation \<Rightarrow> operation \<Rightarrow> bool" where
  "cloned_from K m c oper =
     (op_name c = op_name oper \<and>
      map getType (op_results c) = map getType (op_results oper) \<and>
      length (op_regions c) = length (op_regions oper) \<and>
      (\<exists>es. op_operands c = map (lookupOrDefault (es @ m)) (op_operands oper) \<and>
            fst ` set es \<subseteq> K))"

text \<open>The first example with a second operand and a second initial value.\<close>

definition example_reduce_two :: lhlo_ReduceOp where
  "example_reduce_two =
     example_reduce_1\<lparr>operands := [Value 0 (MemRefType [100, 10, 5] f32), Value 2 (MemRefType [100, 5] f32)],
                      init_values := [Value 1 scalar_buffer, Value 2 (MemRefType [100, 5] f32)]\<rparr>"

text \<open>The padded example with both dilation attributes.\<close>

definition example_window_dilated :: lhlo_ReduceWindowOp where
  "example_window_dilated =
     example_window_padded\<lparr>base_dilations := Some [2, 2], window_dilations := Some [2, 2]\<rparr>"

text \<open>
  A reduction whose body (block 1) wraps the maximum in an operation with a region
  (block 2), and the still empty block of a \<^verbatim>\<open>loop.reduce\<close> (block 3) with its two
  scalar parameters.
\<close>

definition example_rewriter_nested :: rewriter where
  "example_rewriter_nested =
     \<lparr>block_args = (\<lambda>b.
          if b = 1 then [Value 3 scalar_buffer, Value 4 scalar_buffer, Value 5 scalar_buffer]
          else if b = 3 then [Value 6 f32, Value 7 f32]
          else []),
      block_ops = (\<lambda>b.
          if b = 1 then
            [other_op ''test.wrap'' [Value 3 scalar_buffer, Value 4 scalar_buffer] [2],
             other_op ''xla_lhlo.terminator'' [] []]
          else if b = 2 then
            [other_op ''xla_lhlo.maximum''
               [Value 3 scalar_buffer, Value 4 scalar_buffer, Value 5 scalar_buffer] [],
             other_op ''test.done'' [] []]
          else []),
      next_value = 8, next_block = 4, insertion_point = (0, 0),
      diagnostics = [], replaced = []\<rparr>"

definition example_loop_reduce :: operation where
  "example_loop_reduce =
     \<lparr>op_name = ReduceOp, op_operands = [Value 2 f32], op_results = [], op_regions = [3]\<rparr>"

section \<open>Properties of the builder\<close>

lemma create_emit:
  "create n args tys regs st =
     (mk_op n args (next_value st) tys regs,
      emit [mk_op n args (next_value st) tys regs] (length tys) st)"
  by (simp add: create_def create_at_def fresh_values_def insert_at_def emit_def mk_op_def
      Let_def ins_def)

lemma create1_emit:
  "create1 n args ty st =
     (Value (next_value st) ty, emit [mk_op n args (next_value st) [ty] []] 1 st)"
  by (simp add: create1_def create_emit Let_def mk_op_def)

lemma create0_emit:
  "create0 n args st = emit [mk_op n args (next_value st) [] []] 0 st"
  by (simp add: create0_def create_emit)

lemma ins_ins: "ins (p + length xs) ys (ins p xs old) = ins p (xs @ ys) old"
  by (cases "p \<le> length old") (auto simp: ins_def min_def)

lemma ins_nil [simp]: "ins p [] old = old"
  by (simp add: ins_def)

lemma ins_0 [simp]: "ins 0 new old = new @ old"
  by (simp add: ins_def)

lemma emit_emit: "emit ys k2 (emit xs k1 st) = emit (xs @ ys) (k1 + k2) st"
  by (simp add: emit_def ins_ins add.assoc)

lemma emit_nil [simp]: "emit [] 0 st = st"
  by (simp add: emit_def)

lemma emit_proj [simp]:
  "block_args (emit new k st) = block_args st"
  "next_value (emit new k st) = next_value st + k"
  "next_block (emit new k st) = next_block st"
  "diagnostics (emit new k st) = diagnostics st"
  "replaced (emit new k st) = replaced st"
  "insertion_point (emit new k st) =
     (fst (insertion_point st), snd (insertion_point st) + length new)"
  by (simp_all add: emit_def)

lemma emit_block_ops:
  "block_ops (emit new k st) b =
     (if b = fst (insertion_point st)
      then ins (snd (insertion_point st)) new (block_ops st b)
      else block_ops st b)"
  by (simp add: emit_def)

lemma length_partition_ops [simp]: "length (partition_ops operand v k ds) = 3 * length ds"
  by (induction ds arbitrary: v k) auto

lemma axis_values_map:
  "axis_values v off P k n =
     map (\<lambda>i. Value (v + 3 * (i - k) + off) IndexType) (filter P [k..<k + n])"
proof (induction n arbitrary: v k)
  case 0
  then show ?case by simp
next
  case (Suc n)
  have up: "[k..<k + Suc n] = k # [Suc k..<Suc k + n]"
    by (simp add: upt_conv_Cons)
  have "map (\<lambda>i. Value (v + 3 + 3 * (i - Suc k) + off) IndexType) (filter P [Suc k..<Suc k + n])
      = map (\<lambda>i. Value (v + 3 * (i - k) + off) IndexType) (filter P [Suc k..<Suc k + n])"
    by (rule map_cong) (auto simp: algebra_simps)
  then show ?case
    unfolding up by (simp add: Suc.IH)
qed

lemma GetStaticOrDynamicDim_emit:
  "GetStaticOrDynamicDim x k d st =
     (Value (next_value st) IndexType,
      emit [mk_op (if d = kDynamicSize then DimOp k else ConstantIndexOp d)
        (if d = kDynamicSize then [x] else []) (next_value st) [IndexType] []] 1 st)"
  by (simp add: GetStaticOrDynamicDim_def create1_emit)

lemma partition_dims_closed:
  "partition_dims R operand (enumerate k ds) bs st =
     (bs\<lparr>parallel_lower := parallel_lower bs @
            axis_values (next_value st) 1 (\<lambda>i. \<not> count R i) k (length ds),
         parallel_upper := parallel_upper bs @
            axis_values (next_value st) 0 (\<lambda>i. \<not> count R i) k (length ds),
         parallel_step := parallel_step bs @
            axis_values (next_value st) 2 (\<lambda>i. \<not> count R i) k (length ds),
         reduce_lower := reduce_lower bs @ axis_values (next_value st) 1 (count R) k (length ds),
         reduce_upper := reduce_upper bs @ axis_values (next_value st) 0 (count R) k (length ds),
         reduce_step := reduce_step bs @ axis_values (next_value st) 2 (count R) k (length ds)\<rparr>,
      emit (partition_ops operand (next_value st) k ds) (3 * length ds) st)"
proof (induction ds arbitrary: k bs st)
  case Nil
  then show ?case by simp
next
  case (Cons d ds)
  show ?case
    by (simp add: Cons.IH GetStaticOrDynamicDim_emit create1_emit emit_emit Let_def
        numeral_3_eq_3 numeral_2_eq_2)
qed

section \<open>Declining a reduction with several outputs\<close>

text \<open>
  C5: a plain reduction whose number of outputs is not one is declined:
  \<open>matchAndRewrite\<close> returns \<open>failure\<close> without an error, and the rewriter (blocks,
  fresh-value supply, insertion point, diagnostics, replaced operations) is exactly
  the one it was given, so no IR has been created and the operation has not been
  replaced.
\<close>

theorem decline_unless_one_output:
  "length (out xla_reduce_op) \<noteq> 1 \<Longrightarrow> Reduce_matchAndRewrite xla_reduce_op st = Inr (failure, st)"
  by (simp add: Reduce_matchAndRewrite_def)

theorem decline_unless_one_output_witness:
  "length (out ((example_reduce [100, 10, 5] [100, 5] [1])
             \<lparr>out := [Value 2 scalar_buffer, Value 2 scalar_buffer]\<rparr>)) \<noteq> 1 \<and>
   Reduce_matchAndRewrite
     ((example_reduce [100, 10, 5] [100, 5] [1])
        \<lparr>out := [Value 2 scalar_buffer, Value 2 scalar_buffer]\<rparr>)
     (example_rewriter (MemRefType [100, 10, 5] f32) (MemRefType [100, 5] f32))
   = Inr (failure, example_rewriter (MemRefType [100, 10, 5] f32) (MemRefType [100, 5] f32))"
  using decline_unless_one_output
    [of "(example_reduce [100, 10, 5] [100, 5] [1])
           \<lparr>out := [Value 2 scalar_buffer, Value 2 scalar_buffer]\<rparr>"
        "example_rewriter (MemRefType [100, 10, 5] f32) (MemRefType [100, 5] f32)"]
  by (simp add: example_reduce_def)

section \<open>The plain reduction\<close>

lemma to_int_small [simp]: "to_int 0 = 0" "to_int 1 = 1" "to_int 2 = 2"
  by (simp_all add: to_int_def)

declare load_indices.simps [simp del]

lemma before_Suc:
  "reduced_before R (Suc i) = (if count R i then Suc (reduced_before R i) else reduced_before R i)"
  "kept_before R (Suc i) = (if count R i then kept_before R i else Suc (kept_before R i))"
  by (simp_all add: reduced_before_def kept_before_def)

lemma before_mono:
  "i \<le> e \<Longrightarrow> reduced_before R i \<le> reduced_before R e"
  "i \<le> e \<Longrightarrow> kept_before R i \<le> kept_before R e"
  by (induction e) (auto simp: before_Suc le_Suc_eq)

lemma load_indices_gen:
  assumes "length inner_ivs = reduced_before R e"
    and "case outer of Some ivs \<Rightarrow> length ivs = kept_before R e | None \<Rightarrow> kept_before R e = 0"
    and "i \<le> e"
  shows "load_indices R outer inner_ivs (kept_before R i) (reduced_before R i) i e acc =
     Inr (acc @ map (interleaved R (case outer of Some ivs \<Rightarrow> ivs | None \<Rightarrow> []) inner_ivs) [i..<e])"
  using assms(3)
proof (induction "e - i" arbitrary: i acc)
  case 0
  then show ?case by (simp add: load_indices.simps)
next
  case (Suc d)
  then have lt: "i < e" and d: "d = e - Suc i" and le: "Suc i \<le> e" by auto
  have up: "[i..<e] = i # [Suc i..<e]" using lt by (simp add: upt_conv_Cons)
  have m1: "reduced_before R (Suc i) \<le> reduced_before R e" "kept_before R (Suc i) \<le> kept_before R e"
    using le before_mono by auto
  show ?case
  proof (cases "count R i")
    case True
    then have "reduced_before R i < length inner_ivs"
      using m1 assms(1) by (simp add: before_Suc)
    then show ?thesis
      using True lt Suc.hyps(1)[OF d le, of "acc @ [inner_ivs ! reduced_before R i]"]
      by (subst load_indices.simps) (simp add: before_Suc up interleaved_def)
  next
    case False
    then obtain ivs where o: "outer = Some ivs" and "kept_before R i < length ivs"
      using m1 assms(2) by (cases outer) (auto simp: before_Suc)
    then show ?thesis
      using False lt Suc.hyps(1)[OF d le, of "acc @ [ivs ! kept_before R i]"]
      by (subst load_indices.simps) (simp add: before_Suc up interleaved_def)
  qed
qed

lemma new_block_closed:
  "new_block tys body_ops st =
     (next_block st,
      st\<lparr>block_args := (block_args st)
           (next_block st := map (\<lambda>(i, t). Value (next_value st + i) t) (enumerate 0 tys)),
         block_ops := (block_ops st)(next_block st := body_ops),
         next_value := next_value st + length tys,
         next_block := Suc (next_block st)\<rparr>)"
  by (simp add: new_block_def fresh_values_def Let_def)

lemma length_axis_values: "length (axis_values v off P k n) = length (filter P [k..<k + n])"
  by (simp add: axis_values_map)

lemma axis_values_nil: "filter P [0..<n] = [] \<Longrightarrow> axis_values v off P 0 n = []"
  by (simp add: axis_values_map)

lemma create_LoadOp_emit:
  "getType m = MemRefType sh ety \<Longrightarrow>
   create_LoadOp m idx st = Inr (Value (next_value st) ety, emit [mk_op LoadOp (m # idx) (next_value st) [ety] []] 1 st)"
  by (simp add: create_LoadOp_def isMemRef_def getElementType_def create1_emit)

lemma create_ParallelOp_closed:
  "create_ParallelOp lbs ubs steps inits st =
     (mk_op (ParallelOp (length lbs) (length ubs) (length steps) (length inits))
        (lbs @ ubs @ steps @ inits) (next_value st + length steps) (map getType inits) [next_block st],
      emit [mk_op (ParallelOp (length lbs) (length ubs) (length steps) (length inits))
        (lbs @ ubs @ steps @ inits) (next_value st + length steps) (map getType inits) [next_block st]]
        (length inits)
        (st\<lparr>block_args := (block_args st)
           (next_block st := map (\<lambda>(i, t). Value (next_value st + i) t) (enumerate 0 (replicate (length steps) IndexType))),
         block_ops := (block_ops st)(next_block st := [yield_terminator]),
         next_value := next_value st + length steps,
         next_block := Suc (next_block st)\<rparr>))"
  by (simp add: create_ParallelOp_def new_block_closed create_emit Let_def)

lemma create_ReduceOp_closed:
  "create_ReduceOp x st =
     (mk_op ReduceOp [x] (next_value st + 2) [] [next_block st],
      emit [mk_op ReduceOp [x] (next_value st + 2) [] [next_block st]] 0
        (st\<lparr>block_args := (block_args st)
           (next_block st := [Value (next_value st) (getType x), Value (next_value st + 1) (getType x)]),
         block_ops := (block_ops st)(next_block st := []),
         next_value := next_value st + 2,
         next_block := Suc (next_block st)\<rparr>))"
  by (simp add: create_ReduceOp_def new_block_closed create_emit Let_def)

lemma ins_ins_cond [simp]: "q = p + length xs \<Longrightarrow> ins q ys (ins p xs old) = ins p (xs @ ys) old"
  by (simp add: ins_ins)

lemma load_indices_None:
  assumes "length inner_ivs = reduced_before R e" "kept_before R e = 0"
  shows "load_indices R None inner_ivs 0 0 0 e [] = Inr (map (interleaved R [] inner_ivs) [0..<e])"
  using load_indices_gen[of inner_ivs R e None 0 "[]"] assms
  by (simp add: kept_before_def reduced_before_def)

lemma ins_Suc_Cons [simp]: "ins (Suc n) new (x # xs) = x # ins n new xs"
  by (simp add: ins_def)

lemma load_indices_Some:
  assumes "length inner_ivs = reduced_before R e" "length ivs = kept_before R e"
  shows "load_indices R (Some ivs) inner_ivs 0 0 0 e [] = Inr (map (interleaved R ivs inner_ivs) [0..<e])"
  using load_indices_gen[of inner_ivs R e "Some ivs" 0 "[]"] assms
  by (simp add: kept_before_def reduced_before_def)

lemma length_axis_values_count:
  "length (axis_values v off (count R) 0 n) = reduced_before R n"
  "length (axis_values v off (\<lambda>i. \<not> count R i) 0 n) = kept_before R n"
  by (simp_all add: length_axis_values reduced_before_def kept_before_def)

lemma axis_values_no_kept: "kept_before R n = 0 \<Longrightarrow> axis_values v off (\<lambda>i. \<not> count R i) 0 n = []"
  using length_axis_values_count(2)[of v off R n] by simp

lemma axis_values_kept: "0 < kept_before R n \<Longrightarrow> axis_values v off (\<lambda>i. \<not> count R i) 0 n \<noteq> []"
  using length_axis_values_count(2)[of v off R n] by auto

lemma distinct_fresh: "distinct (map (\<lambda>(i, y). Value (v + i) y) (enumerate 0 tys))"
  by (auto simp: distinct_map inj_on_def distinct_zipI1 enumerate_eq_zip)

lemma ex1_count:
  "count (reducing_dims_of example_reduce_1) 0 = False"
  "count (reducing_dims_of example_reduce_1) (Suc 0) = True"
  "count (reducing_dims_of example_reduce_1) (Suc (Suc 0)) = False"
  "count (reducing_dims_of example_reduce_1) 1 = True"
  "count (reducing_dims_of example_reduce_1) 2 = False"
  by (simp_all add: count_def reducing_dims_of_def example_reduce_def example_reduce_1_def)

lemma ex1_before:
  "kept_before (reducing_dims_of example_reduce_1) 0 = 0"
  "kept_before (reducing_dims_of example_reduce_1) (Suc 0) = 1"
  "kept_before (reducing_dims_of example_reduce_1) 1 = 1"
  "kept_before (reducing_dims_of example_reduce_1) 2 = 1"
  "kept_before (reducing_dims_of example_reduce_1) 3 = 2"
  "reduced_before (reducing_dims_of example_reduce_1) 0 = 0"
  "reduced_before (reducing_dims_of example_reduce_1) 1 = 0"
  "reduced_before (reducing_dims_of example_reduce_1) (Suc 0) = 0"
  "reduced_before (reducing_dims_of example_reduce_1) 2 = 1"
  "reduced_before (reducing_dims_of example_reduce_1) (Suc (Suc 0)) = 1"
  "kept_before (reducing_dims_of example_reduce_1) (Suc (Suc 0)) = 1"
  "reduced_before (reducing_dims_of example_reduce_1) 3 = 1"
  by (simp_all add: before_Suc ex1_count numeral_3_eq_3 numeral_2_eq_2, simp_all add: kept_before_def reduced_before_def)

lemma ex1_fields:
  "operands example_reduce_1 = [Value 0 (MemRefType [100, 10, 5] f32)]"
  "out example_reduce_1 = [Value 2 (MemRefType [100, 5] f32)]"
  "init_values example_reduce_1 = [Value 1 scalar_buffer]"
  "insertion_point example_rewriter_1 = (0, 0)"
  "next_block example_rewriter_1 = 2"
  "next_value example_rewriter_1 = 6"
  by (simp_all add: example_reduce_1_def example_reduce_def example_rewriter_1_def example_rewriter_def)

lemma ex_all_count:
  "count (reducing_dims_of example_reduce_all) 0" "count (reducing_dims_of example_reduce_all) (Suc 0)"
  by (simp_all add: count_def reducing_dims_of_def example_reduce_def example_reduce_all_def)

lemma ex_all_fields:
  "operands example_reduce_all = [Value 0 (MemRefType [10, 5] f32)]"
  "out example_reduce_all = [Value 2 (MemRefType [1] f32)]"
  "init_values example_reduce_all = [Value 1 scalar_buffer]"
  "insertion_point example_rewriter_all = (0, 0)"
  "next_block example_rewriter_all = 2"
  "next_value example_rewriter_all = 6"
  by (simp_all add: example_reduce_all_def example_reduce_def example_rewriter_all_def example_rewriter_def)

lemma upt3: "[0..<3] = [0, 1, 2]"
  by (simp add: numeral_3_eq_3 numeral_2_eq_2)


text \<open>
  C3: in a plain reduction the load inside the inner loop takes, besides the operand
  buffer, one index per operand axis in increasing axis order. The index of axis \<open>i\<close>
  is the inner loop's induction variable at the position given by the number of
  reduced axes below \<open>i\<close> when \<open>i\<close> is in the reduced-dimension set, and the outer
  loop's induction variable at the position given by the number of kept axes below
  \<open>i\<close> otherwise. The inner loop has one induction variable per reduced axis and the
  outer loop one per kept axis, so every position read exists.
\<close>

theorem operand_indices_interleaved:
  assumes "operands w = operand # xs" "out w = outv # os"
    "getType operand = MemRefType shape ety" "init_values w = init # is"
    "getType init = MemRefType ishape iety"
    "fst (insertion_point st) < next_block st"
    "R = reducing_dims_of w" "n = length shape"
    "ib = (if kept_before R n = 0 then next_block st else Suc (next_block st))"
  shows "\<exists>reduce_op st' load outer_ivs inner_ivs.
     Reduce_CreateReduceOpInNestedParallelLoops w st = Inr (reduce_op, st') \<and>
     block_ops st' ib = [load, reduce_op, yield_terminator] \<and>
     op_name load = LoadOp \<and> op_name reduce_op = ReduceOp \<and>
     op_operands reduce_op = op_results load \<and>
     op_operands load = operand # map (interleaved R outer_ivs inner_ivs) [0..<n] \<and>
     inner_ivs = block_args st' ib \<and> length inner_ivs = reduced_before R n \<and>
     outer_ivs = (if kept_before R n = 0 then [] else block_args st' (next_block st)) \<and>
     length outer_ivs = kept_before R n"
proof -
  obtain A B v nb b0 p0 d r where st: "st = \<lparr>block_args = A, block_ops = B, next_value = v,
      next_block = nb, insertion_point = (b0, p0), diagnostics = d, replaced = r\<rparr>"
    by (cases st) auto
  have ne: "b0 \<noteq> nb" "nb \<noteq> b0" "b0 \<noteq> Suc nb" "Suc nb \<noteq> b0" using assms(6) st by auto
  show ?thesis
  proof (cases "kept_before R n = 0")
    case True
    show ?thesis
      using assms(1-5) ne True
      by (simp add: st assms(7-9) Reduce_CreateReduceOpInNestedParallelLoops_def Let_def isMemRef_def getShape_def
        partition_dims_closed create_LoadOp_emit no_bounds_def axis_values_no_kept
        create_ParallelOp_closed create1_emit create0_emit emit_def create_ReduceOp_closed
        load_indices_None length_axis_values_count getInductionVars_def getBody_def mk_op_def setInsertionPointToStart_def)
  next
    case False
    then have pos: "0 < kept_before R n" by simp
    show ?thesis
      using assms(1-5) ne False
      by (simp add: st assms(7-9) Reduce_CreateReduceOpInNestedParallelLoops_def Let_def isMemRef_def getShape_def
        partition_dims_closed create_LoadOp_emit no_bounds_def axis_values_kept[OF pos[unfolded assms(7-8)]]
        create_ParallelOp_closed create1_emit create0_emit emit_def create_ReduceOp_closed
        load_indices_Some length_axis_values_count getInductionVars_def getBody_def mk_op_def setInsertionPointToStart_def)
  qed
qed

theorem operand_indices_interleaved_witness:
  "\<exists>reduce_op st' load outer_ivs inner_ivs.
     Reduce_CreateReduceOpInNestedParallelLoops example_reduce_1 example_rewriter_1 = Inr (reduce_op, st') \<and>
     block_ops st' 3 = [load, reduce_op, yield_terminator] \<and>
     op_operands load = [Value 0 (MemRefType [100, 10, 5] f32), outer_ivs ! 0, inner_ivs ! 0, outer_ivs ! 1] \<and>
     inner_ivs = block_args st' 3 \<and> length inner_ivs = 1 \<and>
     outer_ivs = block_args st' 2 \<and> length outer_ivs = 2"
proof -
  have i3: "map (interleaved (reducing_dims_of example_reduce_1) xs ys) [0..<3] = [xs ! 0, ys ! 0, xs ! 1]" for xs ys
    by (simp add: numeral_3_eq_3 interleaved_def ex1_count ex1_before)
  show ?thesis
    using operand_indices_interleaved[of example_reduce_1 "Value 0 (MemRefType [100, 10, 5] f32)" "[]"
      "Value 2 (MemRefType [100, 5] f32)" "[]" "[100, 10, 5]" f32 "Value 1 scalar_buffer" "[]" "[]" f32
      example_rewriter_1 "reducing_dims_of example_reduce_1" 3 3]
    by (simp add: ex1_fields ex1_before i3 scalar_buffer_def) blast
qed

lemma before_sum: "reduced_before R n + kept_before R n = n"
  by (induction n) (auto simp: before_Suc reduced_before_def kept_before_def)

lemma all_reduced: "(\<forall>i<n. count R i) \<Longrightarrow> kept_before R n = 0"
  by (auto simp: kept_before_def filter_empty_conv)

lemma loops_and_stores_partition_ops [simp]: "loops_and_stores (partition_ops operand v k ds) = []"
  by (induction ds arbitrary: v k) (auto simp: loops_and_stores_def mk_op_def is_ParallelOp_def)

lemma loops_and_stores_simps [simp]:
  "loops_and_stores [] = []"
  "loops_and_stores (x # xs) =
     (if is_ParallelOp (op_name x) \<or> op_name x = StoreOp then x # loops_and_stores xs
      else loops_and_stores xs)"
  "loops_and_stores (xs @ ys) = loops_and_stores xs @ loops_and_stores ys"
  by (simp_all add: loops_and_stores_def)

lemma ins_inject [simp]: "(ins p xs old = ins p ys old) = (xs = ys)"
  by (simp add: ins_def)

text \<open>
  C4: when every axis of the operand is in the reduced-dimension set, the operations
  inserted at the insertion point are the bounds of the partition loop, the load of
  the initial value, one parallel loop, a constant zero index and one store. The only
  loop among them is the reduction loop (it carries the initial value and has a
  result), so no outer loop exists; the only store writes the result of that loop to
  the output buffer at the constant zero index and stands outside every loop body. The
  two blocks created are the body of the reduction loop and the still empty block of
  the \<^verbatim>\<open>loop.reduce\<close>; no other block changes.
\<close>

theorem reduce_all_axes_no_outer_loop:
  assumes "operands w = operand # xs" "out w = outv # os"
    "getType operand = MemRefType shape ety" "init_values w = init # is"
    "getType init = MemRefType ishape iety"
    "fst (insertion_point st) < next_block st"
    "\<forall>i<length shape. count (reducing_dims_of w) i"
  shows "\<exists>reduce_op st' load_init inner c0 store load.
     Reduce_CreateReduceOpInNestedParallelLoops w st = Inr (reduce_op, st') \<and>
     block_ops st' (fst (insertion_point st)) =
       ins (snd (insertion_point st))
         (partition_ops operand (next_value st) 0 shape @ [load_init, inner, c0, store])
         (block_ops st (fst (insertion_point st))) \<and>
     loops_and_stores (partition_ops operand (next_value st) 0 shape @ [load_init, inner, c0, store])
       = [inner, store] \<and>
     op_name load_init = LoadOp \<and> op_operands load_init = [init] \<and>
     op_name inner = ParallelOp (length shape) (length shape) (length shape) 1 \<and>
     op_regions inner = [next_block st] \<and>
     initVals inner = op_results load_init \<and> length (op_results inner) = 1 \<and>
     op_name c0 = ConstantIndexOp 0 \<and> length (op_results c0) = 1 \<and>
     op_name store = StoreOp \<and>
     op_operands store = op_results inner @ [outv] @ op_results c0 \<and>
     block_ops st' (next_block st) = [load, reduce_op, yield_terminator] \<and>
     op_name load = LoadOp \<and> op_name reduce_op = ReduceOp \<and>
     op_regions reduce_op = [Suc (next_block st)] \<and>
     block_ops st' (Suc (next_block st)) = [] \<and>
     next_block st' = Suc (Suc (next_block st)) \<and>
     (\<forall>b. b \<noteq> fst (insertion_point st) \<and> b \<noteq> next_block st \<and> b \<noteq> Suc (next_block st)
        \<longrightarrow> block_ops st' b = block_ops st b)"
proof -
  obtain A B v nb b0 p0 d r where st: "st = \<lparr>block_args = A, block_ops = B, next_value = v,
      next_block = nb, insertion_point = (b0, p0), diagnostics = d, replaced = r\<rparr>"
    by (cases st) auto
  have ne: "b0 \<noteq> nb" "nb \<noteq> b0" "b0 \<noteq> Suc nb" "Suc nb \<noteq> b0" using assms(6) st by auto
  have k: "kept_before (reducing_dims_of w) (length shape) = 0"
    using assms(7) by (rule all_reduced)
  then have r: "reduced_before (reducing_dims_of w) (length shape) = length shape"
    using before_sum[of "reducing_dims_of w" "length shape"] by simp
  show ?thesis
    using assms(1-5) ne k r
    by (simp add: st Reduce_CreateReduceOpInNestedParallelLoops_def Let_def isMemRef_def getShape_def
        partition_dims_closed create_LoadOp_emit no_bounds_def axis_values_no_kept
        create_ParallelOp_closed create1_emit create0_emit emit_def create_ReduceOp_closed
        load_indices_None length_axis_values_count getInductionVars_def getBody_def mk_op_def
        setInsertionPointToStart_def is_ParallelOp_def initVals_def)
qed

theorem reduce_all_axes_no_outer_loop_witness:
  "\<exists>reduce_op example_rewriter_all' load_init inner c0 store load.
     Reduce_CreateReduceOpInNestedParallelLoops example_reduce_all example_rewriter_all = Inr (reduce_op, example_rewriter_all') \<and>
     block_ops example_rewriter_all' (fst (insertion_point example_rewriter_all)) =
       ins (snd (insertion_point example_rewriter_all))
         (partition_ops (Value 0 (MemRefType [10, 5] f32)) (next_value example_rewriter_all) 0 [10, 5] @ [load_init, inner, c0, store])
         (block_ops example_rewriter_all (fst (insertion_point example_rewriter_all))) \<and>
     loops_and_stores (partition_ops (Value 0 (MemRefType [10, 5] f32)) (next_value example_rewriter_all) 0 [10, 5] @ [load_init, inner, c0, store])
       = [inner, store] \<and>
     op_name load_init = LoadOp \<and> op_operands load_init = [Value 1 scalar_buffer] \<and>
     op_name inner = ParallelOp (length ([10, 5]::int list)) (length ([10, 5]::int list)) (length ([10, 5]::int list)) 1 \<and>
     op_regions inner = [next_block example_rewriter_all] \<and>
     initVals inner = op_results load_init \<and> length (op_results inner) = 1 \<and>
     op_name c0 = ConstantIndexOp 0 \<and> length (op_results c0) = 1 \<and>
     op_name store = StoreOp \<and>
     op_operands store = op_results inner @ [Value 2 (MemRefType [1] f32)] @ op_results c0 \<and>
     block_ops example_rewriter_all' (next_block example_rewriter_all) = [load, reduce_op, yield_terminator] \<and>
     op_name load = LoadOp \<and> op_name reduce_op = ReduceOp \<and>
     op_regions reduce_op = [Suc (next_block example_rewriter_all)] \<and>
     block_ops example_rewriter_all' (Suc (next_block example_rewriter_all)) = [] \<and>
     next_block example_rewriter_all' = Suc (Suc (next_block example_rewriter_all)) \<and>
     (\<forall>b. b \<noteq> fst (insertion_point example_rewriter_all) \<and> b \<noteq> next_block example_rewriter_all \<and> b \<noteq> Suc (next_block example_rewriter_all)
        \<longrightarrow> block_ops example_rewriter_all' b = block_ops example_rewriter_all b)"
proof -
  have a: "\<forall>i<length [10, 5::int]. count (reducing_dims_of example_reduce_all) i"
    by (auto simp: less_Suc_eq ex_all_count)
  have h: "fst (insertion_point example_rewriter_all) < next_block example_rewriter_all"
    by (simp add: ex_all_fields)
  have o: "operands example_reduce_all = Value 0 (MemRefType [10, 5] f32) # []"
    and u: "out example_reduce_all = Value 2 (MemRefType [1] f32) # []"
    and i: "init_values example_reduce_all = Value 1 scalar_buffer # []"
    by (simp_all add: ex_all_fields)
  have t: "getType (Value 0 (MemRefType [10, 5] f32)) = MemRefType [10, 5] f32"
    and s: "getType (Value 1 scalar_buffer) = MemRefType [] f32"
    by (simp_all add: scalar_buffer_def)
  show ?thesis
    by (rule reduce_all_axes_no_outer_loop[OF o u t i s h a])
qed

lemma partition_ops_nth:
  "i < length ds \<Longrightarrow>
   partition_ops operand v k ds ! (3 * i) =
     mk_op (if ds ! i = kDynamicSize then DimOp (k + i) else ConstantIndexOp (ds ! i))
       (if ds ! i = kDynamicSize then [operand] else []) (v + 3 * i) [IndexType] [] \<and>
   partition_ops operand v k ds ! (3 * i + 1) =
     mk_op (ConstantIndexOp 0) [] (v + 3 * i + 1) [IndexType] [] \<and>
   partition_ops operand v k ds ! (3 * i + 2) =
     mk_op (ConstantIndexOp 1) [] (v + 3 * i + 2) [IndexType] []"
proof (induction ds arbitrary: v k i)
  case Nil
  then show ?case by simp
next
  case (Cons d ds)
  show ?case
  proof (cases i)
    case 0
    then show ?thesis by simp
  next
    case (Suc j)
    then have j: "j < length ds" using Cons.prems by simp
    have e: "3 * Suc j = Suc (Suc (Suc (3 * j)))" by simp
    show ?thesis
      using Cons.IH[OF j, of "v + 3" "Suc k"]
      by (simp add: Suc e add.assoc add.commute add.left_commute)
  qed
qed

text \<open>
  C8: the partition loop visits the axes in increasing order and writes three
  operations per axis, in this order: the upper bound (a \<^verbatim>\<open>dim\<close> of the operand
  for a dynamic extent, the constant extent otherwise), the constant 0 as lower bound
  and the constant 1 as step. The results of axis \<open>i\<close> go to the reduced lists when
  \<open>i\<close> is in the reduced set and to the kept lists otherwise; each list holds its axes
  in increasing order.
\<close>

theorem partition_dims_in_axis_order:
  "partition_dims R operand (enumerate 0 shape) no_bounds st =
     (\<lparr>parallel_lower = map (\<lambda>i. Value (next_value st + 3 * i + 1) IndexType)
                           (filter (\<lambda>i. \<not> count R i) [0..<length shape]),
       parallel_upper = map (\<lambda>i. Value (next_value st + 3 * i) IndexType)
                           (filter (\<lambda>i. \<not> count R i) [0..<length shape]),
       parallel_step = map (\<lambda>i. Value (next_value st + 3 * i + 2) IndexType)
                           (filter (\<lambda>i. \<not> count R i) [0..<length shape]),
       reduce_lower = map (\<lambda>i. Value (next_value st + 3 * i + 1) IndexType)
                           (filter (count R) [0..<length shape]),
       reduce_upper = map (\<lambda>i. Value (next_value st + 3 * i) IndexType)
                           (filter (count R) [0..<length shape]),
       reduce_step = map (\<lambda>i. Value (next_value st + 3 * i + 2) IndexType)
                           (filter (count R) [0..<length shape])\<rparr>,
      emit (partition_ops operand (next_value st) 0 shape) (3 * length shape) st) \<and>
   length (partition_ops operand (next_value st) 0 shape) = 3 * length shape \<and>
   (\<forall>i<length shape.
      partition_ops operand (next_value st) 0 shape ! (3 * i) =
        mk_op (if shape ! i = kDynamicSize then DimOp i else ConstantIndexOp (shape ! i))
          (if shape ! i = kDynamicSize then [operand] else []) (next_value st + 3 * i)
          [IndexType] [] \<and>
      partition_ops operand (next_value st) 0 shape ! (3 * i + 1) =
        mk_op (ConstantIndexOp 0) [] (next_value st + 3 * i + 1) [IndexType] [] \<and>
      partition_ops operand (next_value st) 0 shape ! (3 * i + 2) =
        mk_op (ConstantIndexOp 1) [] (next_value st + 3 * i + 2) [IndexType] [])"
  using partition_ops_nth[of _ shape operand "next_value st" 0]
  by (simp add: partition_dims_closed no_bounds_def axis_values_map)

theorem partition_dims_in_axis_order_witness:
  "partition_dims (reducing_dims_of example_reduce_1) (Value 0 (MemRefType [100, 10, 5] f32))
     (enumerate 0 [100, 10, 5]) no_bounds example_rewriter_1 =
     (\<lparr>parallel_lower = [Value 7 IndexType, Value 13 IndexType],
       parallel_upper = [Value 6 IndexType, Value 12 IndexType],
       parallel_step = [Value 8 IndexType, Value 14 IndexType],
       reduce_lower = [Value 10 IndexType],
       reduce_upper = [Value 9 IndexType],
       reduce_step = [Value 11 IndexType]\<rparr>,
      emit (partition_ops (Value 0 (MemRefType [100, 10, 5] f32)) 6 0 [100, 10, 5]) 9 example_rewriter_1) \<and>
   partition_ops (Value 0 (MemRefType [100, 10, 5] f32)) 6 0 [100, 10, 5] ! 3 =
     mk_op (ConstantIndexOp 10) [] 9 [IndexType] []"
proof -
  note t = partition_dims_in_axis_order[of "reducing_dims_of example_reduce_1"
      "Value 0 (MemRefType [100, 10, 5] f32)" "[100, 10, 5]" example_rewriter_1]
  note t1 = t[THEN conjunct1]
  note t3 = t[THEN conjunct2, THEN conjunct2, rule_format, of 1, THEN conjunct1]
  have a: "partition_dims (reducing_dims_of example_reduce_1) (Value 0 (MemRefType [100, 10, 5] f32))
     (enumerate 0 [100, 10, 5]) no_bounds example_rewriter_1 =
     (\<lparr>parallel_lower = [Value 7 IndexType, Value 13 IndexType],
       parallel_upper = [Value 6 IndexType, Value 12 IndexType],
       parallel_step = [Value 8 IndexType, Value 14 IndexType],
       reduce_lower = [Value 10 IndexType],
       reduce_upper = [Value 9 IndexType],
       reduce_step = [Value 11 IndexType]\<rparr>,
      emit (partition_ops (Value 0 (MemRefType [100, 10, 5] f32)) 6 0 [100, 10, 5]) 9 example_rewriter_1)"
    unfolding t1 by (simp add: ex1_fields upt3 ex1_count del: partition_ops.simps enumerate_simps)
  have b: "partition_ops (Value 0 (MemRefType [100, 10, 5] f32)) 6 0 [100, 10, 5] ! 3 =
     mk_op (ConstantIndexOp 10) [] 9 [IndexType] []"
    using t3 by (simp add: ex1_fields kDynamicSize_def del: partition_ops.simps)
  show ?thesis using a b by (rule conjI)
qed

lemma create_first_operand_only:
  assumes "operands w = x # xs" "init_values w = i # is"
  shows "Reduce_CreateReduceOpInNestedParallelLoops w st =
         Reduce_CreateReduceOpInNestedParallelLoops (w\<lparr>operands := [x], init_values := [i]\<rparr>) st"
  by (simp add: Reduce_CreateReduceOpInNestedParallelLoops_def reducing_dims_of_def assms
      cong: list.case_cong if_cong let_cong prod.case_cong)

section \<open>The windowed reduction\<close>

lemma output_bounds_closed:
  "output_bounds x zero one (enumerate k ds) bs st =
     (bs\<lparr>parallel_upper := parallel_upper bs @ index_values (next_value st) (length ds),
         parallel_lower := parallel_lower bs @ replicate (length ds) zero,
         parallel_step := parallel_step bs @ replicate (length ds) one\<rparr>,
      emit (output_ops x (next_value st) k ds) (length ds) st)"
proof (induction ds arbitrary: k bs st)
  case Nil
  then show ?case by simp
next
  case (Cons d ds)
  show ?case
    by (simp add: Cons.IH GetStaticOrDynamicDim_emit emit_emit Let_def replicate_append_same)
qed

lemma window_bounds_closed:
  "window_bounds zero one ds bs st =
     (bs\<lparr>reduce_step := reduce_step bs @ replicate (length ds) one,
         reduce_lower := reduce_lower bs @ replicate (length ds) zero,
         reduce_upper := reduce_upper bs @ index_values (next_value st) (length ds)\<rparr>,
      emit (window_ops (next_value st) ds) (length ds) st)"
proof (induction ds arbitrary: bs st)
  case Nil
  then show ?case by simp
next
  case (Cons d ds)
  show ?case
    by (simp add: Cons.IH create1_emit emit_emit Let_def replicate_append_same)
qed

declare operand_indices_loop.simps [simp del]

lemma length_index_ops [simp]:
  "length (index_ops x shape ovs wvs strides lows v i n inb) = 8 * n"
  by (induction n arbitrary: v i inb) (auto simp: axis_index_ops_def)

lemma last_in_bounds_Suc:
  "last_in_bounds (v + 8) n (Value (v + 7) (getType inb)) = last_in_bounds v (Suc n) inb"
  by (cases n) (auto simp: last_in_bounds_def)

lemma operand_indices_loop_closed:
  assumes "i + n \<le> length strides" "i + n \<le> length ovs" "i + n \<le> length wvs"
    "i + n \<le> length shape" "\<forall>j<i + n. pad_low_at pad j = Some (lows ! j)"
  shows "operand_indices_loop x shape ovs wvs strides pad i (i + n) acc inb st =
     Inr ((acc @ index_results ovs (next_value st) i n, last_in_bounds (next_value st) n inb),
          emit (index_ops x shape ovs wvs strides lows (next_value st) i n inb) (8 * n) st)"
  using assms
proof (induction n arbitrary: i acc inb st)
  case 0
  then show ?case
    by (simp add: operand_indices_loop.simps last_in_bounds_def)
next
  case (Suc n)
  have p: "pad_low_at pad i = Some (lows ! i)" using Suc.prems(5) by simp
  have ih: "\<And>acc inb st. operand_indices_loop x shape ovs wvs strides pad (Suc i) (Suc (i + n)) acc inb st =
     Inr ((acc @ index_results ovs (next_value st) (Suc i) n, last_in_bounds (next_value st) n inb),
          emit (index_ops x shape ovs wvs strides lows (next_value st) (Suc i) n inb) (8 * n) st)"
    using Suc.prems Suc.IH[of "Suc i"] by simp
  have l: "last_in_bounds (Suc (Suc (Suc (Suc (Suc (Suc (Suc (Suc v)))))))) n
             (Value (Suc (Suc (Suc (Suc (Suc (Suc (Suc v))))))) (getType inb)) =
           last_in_bounds v (Suc n) inb" for v
    using last_in_bounds_Suc[of v n inb] by (simp add: eval_nat_numeral)
  show ?case
    using Suc.prems(1-4)
    apply (subst operand_indices_loop.simps)
    apply (simp add: p ih create1_emit GetStaticOrDynamicDim_emit emit_emit Let_def
        axis_index_ops_def eval_nat_numeral l)
    done
qed

lemma run_flat_append:
  "run_flat M env (xs @ ys) =
     (case run_flat M env xs of None \<Rightarrow> None | Some env1 \<Rightarrow> run_flat M env1 ys)"
  by (induction xs arbitrary: env) (auto split: option.splits)

lemma fresh_neq [simp]: "vid y < v \<Longrightarrow> y \<noteq> Value (v + k) T" "vid y < v \<Longrightarrow> Value (v + k) T \<noteq> y"
  "vid y < v \<Longrightarrow> y \<noteq> Value v T" "vid y < v \<Longrightarrow> Value v T \<noteq> y"
  by auto

lemma axis_index_ops_sem:
  fixes M :: "('w::len word, 'e) machine" and env :: "('w, 'e) env"
  assumes "env (ovs ! i) = Some (IndexV a)" "env (wvs ! i) = Some (IndexV c)"
    "env inb = Some (BoolV b)" "vid (ovs ! i) < v" "vid (wvs ! i) < v" "vid inb < v"
  shows "run_flat M env (axis_index_ops x shape ovs wvs strides lows v i inb) =
     Some (env(Value v IndexType \<mapsto> IndexV (of_int (strides ! i)),
               Value (v + 1) IndexType \<mapsto> IndexV (of_int (lows ! i)),
               Value (v + 2) (getType (ovs ! i)) \<mapsto> IndexV (a * of_int (strides ! i)),
               Value (v + 3) (getType (wvs ! i)) \<mapsto> IndexV (c - of_int (lows ! i)),
               Value (v + 4) (getType (ovs ! i)) \<mapsto>
                 IndexV (a * of_int (strides ! i) + (c - of_int (lows ! i))),
               Value (v + 5) IndexType \<mapsto> IndexV (operand_extent M x shape i),
               Value (v + 6) (IntegerType 1) \<mapsto>
                 BoolV (a * of_int (strides ! i) + (c - of_int (lows ! i)) < operand_extent M x shape i),
               Value (v + 7) (getType inb) \<mapsto>
                 BoolV (b \<and> a * of_int (strides ! i) + (c - of_int (lows ! i)) < operand_extent M x shape i)))"
  using assms
  by (simp add: axis_index_ops_def exec_flat_def mk_op_def index_arg_def bool_arg_def
      operand_extent_def compare_def)

lemma index_ops_sem:
  fixes M :: "('w::len word, 'e) machine" and env :: "('w, 'e) env"
  assumes "\<forall>j. i \<le> j \<and> j < i + n \<longrightarrow>
             env (ovs ! j) = Some (IndexV (os ! j)) \<and> env (wvs ! j) = Some (IndexV (ws ! j)) \<and>
             vid (ovs ! j) < v \<and> vid (wvs ! j) < v"
    and "env inb = Some (BoolV b)" and "vid inb < v"
  shows "\<exists>env'. run_flat M env (index_ops x shape ovs wvs strides lows v i n inb) = Some env' \<and>
     env' (last_in_bounds v n inb) =
       Some (BoolV (b \<and> (\<forall>j. i \<le> j \<and> j < i + n \<longrightarrow>
               operand_index strides lows os ws j < operand_extent M x shape j))) \<and>
     map (index_arg env') (index_results ovs v i n) =
       map (\<lambda>j. Some (operand_index strides lows os ws j)) [i..<i + n] \<and>
     (\<forall>y. vid y < v \<longrightarrow> env' y = env y)"
  using assms
proof (induction n arbitrary: v i inb b env)
  case 0
  then show ?case by (auto simp: last_in_bounds_def)
next
  case (Suc n)
  let ?idx = "operand_index strides lows os ws i"
  let ?ext = "operand_extent M x shape i"
  let ?b1 = "b \<and> ?idx < ?ext"
  let ?inb1 = "Value (v + 7) (getType inb)"
  have here: "env (ovs ! i) = Some (IndexV (os ! i))" "env (wvs ! i) = Some (IndexV (ws ! i))"
    "vid (ovs ! i) < v" "vid (wvs ! i) < v"
    using Suc.prems(1) by auto
  obtain env1 where
    r1: "run_flat M env (axis_index_ops x shape ovs wvs strides lows v i inb) = Some env1"
    and f1: "\<And>y. vid y < v \<Longrightarrow> env1 y = env y"
    and i1: "env1 (Value (v + 4) (getType (ovs ! i))) = Some (IndexV ?idx)"
    and b1: "env1 ?inb1 = Some (BoolV ?b1)"
    using axis_index_ops_sem[of env ovs i "os ! i" wvs "ws ! i" inb b v M x shape strides lows,
        OF here(1,2) Suc.prems(2) here(3,4) Suc.prems(3)]
    by (simp add: operand_index_def)
  have pre: "\<forall>j. Suc i \<le> j \<and> j < Suc i + n \<longrightarrow>
             env1 (ovs ! j) = Some (IndexV (os ! j)) \<and> env1 (wvs ! j) = Some (IndexV (ws ! j)) \<and>
             vid (ovs ! j) < v + 8 \<and> vid (wvs ! j) < v + 8"
  proof (intro allI impI)
    fix j assume j: "Suc i \<le> j \<and> j < Suc i + n"
    then have "i \<le> j \<and> j < i + Suc n" by simp
    with Suc.prems(1) have h: "env (ovs ! j) = Some (IndexV (os ! j))"
      "env (wvs ! j) = Some (IndexV (ws ! j))" "vid (ovs ! j) < v" "vid (wvs ! j) < v"
      by blast+
    then show "env1 (ovs ! j) = Some (IndexV (os ! j)) \<and> env1 (wvs ! j) = Some (IndexV (ws ! j)) \<and>
             vid (ovs ! j) < v + 8 \<and> vid (wvs ! j) < v + 8"
      using f1 by simp
  qed
  have "vid ?inb1 < v + 8" by simp
  from Suc.IH[OF pre b1 this]
  obtain env' where
    r2: "run_flat M env1 (index_ops x shape ovs wvs strides lows (v + 8) (Suc i) n ?inb1) = Some env'"
    and l2: "env' (last_in_bounds (v + 8) n ?inb1) =
       Some (BoolV (?b1 \<and> (\<forall>j. Suc i \<le> j \<and> j < Suc i + n \<longrightarrow>
               operand_index strides lows os ws j < operand_extent M x shape j)))"
    and m2: "map (index_arg env') (index_results ovs (v + 8) (Suc i) n) =
       map (\<lambda>j. Some (operand_index strides lows os ws j)) [Suc i..<Suc i + n]"
    and f2: "\<And>y. vid y < v + 8 \<Longrightarrow> env' y = env1 y"
    by blast
  have all: "(\<forall>j. i \<le> j \<and> j < i + Suc n \<longrightarrow> operand_index strides lows os ws j < operand_extent M x shape j)
      = (?idx < ?ext \<and> (\<forall>j. Suc i \<le> j \<and> j < Suc i + n \<longrightarrow>
               operand_index strides lows os ws j < operand_extent M x shape j))"
  proof (intro iffI conjI allI impI)
    assume a: "\<forall>j. i \<le> j \<and> j < i + Suc n \<longrightarrow> operand_index strides lows os ws j < operand_extent M x shape j"
    show "?idx < ?ext" using a by simp
    fix j assume "Suc i \<le> j \<and> j < Suc i + n"
    then have "i \<le> j \<and> j < i + Suc n" by simp
    then show "operand_index strides lows os ws j < operand_extent M x shape j" using a by blast
  next
    fix j
    assume a: "?idx < ?ext \<and> (\<forall>j. Suc i \<le> j \<and> j < Suc i + n \<longrightarrow>
               operand_index strides lows os ws j < operand_extent M x shape j)"
      and j: "i \<le> j \<and> j < i + Suc n"
    show "operand_index strides lows os ws j < operand_extent M x shape j"
    proof (cases "j = i")
      case True
      then show ?thesis using a by simp
    next
      case False
      then have "Suc i \<le> j \<and> j < Suc i + n" using j by simp
      then show ?thesis using a by blast
    qed
  qed
  have up: "[i..<i + Suc n] = i # [Suc i..<Suc i + n]"
    by (simp add: upt_conv_Cons)
  have "run_flat M env (index_ops x shape ovs wvs strides lows v i (Suc n) inb) = Some env'"
    by (simp add: run_flat_append r1 r2)
  moreover have "env' (last_in_bounds v (Suc n) inb) =
       Some (BoolV (b \<and> (\<forall>j. i \<le> j \<and> j < i + Suc n \<longrightarrow>
               operand_index strides lows os ws j < operand_extent M x shape j)))"
    unfolding all using l2 by (simp add: last_in_bounds_Suc)
  moreover have "map (index_arg env') (index_results ovs v i (Suc n)) =
       map (\<lambda>j. Some (operand_index strides lows os ws j)) [i..<i + Suc n]"
    unfolding up using m2 i1 f2[of "Value (v + 4) (getType (ovs ! i))"]
    by (simp add: index_arg_def)
  moreover have "\<forall>y. vid y < v \<longrightarrow> env' y = env y"
    using f1 f2 by simp
  ultimately show ?case by blast
qed

lemma length_index_values [simp]: "length (index_values v n) = n"
  by (induction n arbitrary: v) auto

lemma length_index_results [simp]: "length (index_results ovs v i n) = n"
  by (induction n arbitrary: v i) auto

lemma operand_indices_loop_closed0:
  assumes "n \<le> length strides" "n \<le> length ovs" "n \<le> length wvs"
    "n \<le> length shape" "\<forall>j<n. pad_low_at pad j = Some (lows ! j)"
  shows "operand_indices_loop x shape ovs wvs strides pad 0 n [] inb st =
     Inr ((index_results ovs (next_value st) 0 n, last_in_bounds (next_value st) n inb),
          emit (index_ops x shape ovs wvs strides lows (next_value st) 0 n inb) (8 * n) st)"
  using operand_indices_loop_closed[of 0 n strides ovs wvs shape pad lows x "[]" inb st] assms
  by simp

lemma create_IfOp_closed:
  "create_IfOp [ty] cond True st =
     (mk_op IfOp [cond] (next_value st) [ty] [next_block st, Suc (next_block st)],
      emit [mk_op IfOp [cond] (next_value st) [ty] [next_block st, Suc (next_block st)]] 1
        (st\<lparr>block_args := (block_args st)(next_block st := [], Suc (next_block st) := []),
            block_ops := (block_ops st)(next_block st := [], Suc (next_block st) := []),
            next_block := Suc (Suc (next_block st))\<rparr>))"
  by (simp add: create_IfOp_def new_block_closed create_emit Let_def)

lemma create_at_closed:
  "create_at pt n args tys regs st =
     (mk_op n args (next_value st) tys regs, (fst pt, Suc (snd pt)),
      st\<lparr>block_ops := (block_ops st)
           (fst pt := ins (snd pt) [mk_op n args (next_value st) tys regs] (block_ops st (fst pt))),
         next_value := next_value st + length tys\<rparr>)"
  by (simp add: create_at_def fresh_values_def insert_at_def mk_op_def Let_def ins_def)

lemma mk_op_proj [simp]:
  "op_name (mk_op n args v tys regs) = n"
  "op_operands (mk_op n args v tys regs) = args"
  "op_regions (mk_op n args v tys regs) = regs"
  "op_results (mk_op n args v [] regs) = []"
  "op_results (mk_op n args v [ty] regs) = [Value v ty]"
  by (simp_all add: mk_op_def)

lemma ins_append_right [simp]:
  "length xs \<le> p \<Longrightarrow> ins p new (xs @ ys) = xs @ ins (p - length xs) new ys"
  by (simp add: ins_def)

lemma emit_diagnostics_if:
  "(if P then emitRemark h msg st else st) =
     st\<lparr>diagnostics := diagnostics st @
       (if P then [\<lparr>diag_severity = Remark, diag_op = h, diag_message = msg\<rparr>] else [])\<rparr>"
  by (simp add: emitRemark_def)

lemma window_create_closed:
  assumes "window_strides w = Some strides" "padding w = Some pad"
    "getType (rw_operand w) = MemRefType shape ety"
    "getNumLoops ol = n" "op_regions ol = [ob]" "op_regions wl = [wb]"
    "initVals wl = init # inits"
    "block_args st ob = ovs" "block_args st wb = wvs"
    "n \<le> length strides" "n \<le> length ovs" "n \<le> length wvs" "n \<le> length shape"
    "\<forall>j<n. pad_low_at pad j = Some (lows ! j)"
    "wb < next_block st" "c = next_value st" "nb = next_block st" "ob < next_block st"
  shows "\<exists>reduce_op st2.
     Window_CreateReduceOpInNestedParallelLoops w ol wl st = Inr (reduce_op, st2) \<and>
     block_ops st2 wb =
       mk_op (ConstantOp 1) [] c [IntegerType 1] [] #
       index_ops (rw_operand w) shape ovs wvs strides lows (c + 1) 0 n (Value c (IntegerType 1)) @
       [mk_op IfOp [last_in_bounds (c + 1) n (Value c (IntegerType 1))] (c + 8 * n + 1) [ety]
          [nb, Suc nb],
        reduce_op] @ block_ops st wb \<and>
     op_name reduce_op = ReduceOp \<and> op_operands reduce_op = [Value (c + 8 * n + 1) ety] \<and>
     block_ops st2 nb =
       [mk_op LoadOp (rw_operand w # index_results ovs (c + 1) 0 n) (c + 8 * n + 2) [ety] [],
        mk_op YieldOp [Value (c + 8 * n + 2) ety] (c + 8 * n + 3) [] []] \<and>
     block_ops st2 (Suc nb) = [mk_op YieldOp [init] (c + 8 * n + 3) [] []] \<and>
     block_args st2 ob = ovs \<and> block_args st2 wb = wvs \<and>
     diagnostics st2 = diagnostics st @
       (if base_dilations w \<noteq> None \<or> window_dilations w \<noteq> None
        then [\<lparr>diag_severity = Remark, diag_op = rw_handle w, diag_message = dilation_message\<rparr>]
        else [])"
proof -
  obtain A B d r b0 p0 where st: "st = \<lparr>block_args = A, block_ops = B, next_value = c,
      next_block = nb, insertion_point = (b0, p0), diagnostics = d, replaced = r\<rparr>"
    using assms(16,17) by (cases st) auto
  have ne: "wb \<noteq> nb" "wb \<noteq> Suc nb" "wb \<noteq> Suc (Suc nb)" "nb \<noteq> wb" "Suc nb \<noteq> wb"
    using assms(15) st by auto
  have A: "A ob = ovs" "A wb = wvs" using assms(8,9) st by auto
  have ob: "ob \<noteq> nb" "ob \<noteq> Suc nb" "ob \<noteq> Suc (Suc nb)"
    using assms(18) st by auto
  note loop = operand_indices_loop_closed0[where lows = lows, OF assms(10-14)]
  show ?thesis
    using assms(1-3) ne A ob
    apply (simp add: st assms(4-7) Window_CreateReduceOpInNestedParallelLoops_def Let_def
        isMemRef_def getShape_def getElementType_def create1_emit emit_def
        create_IfOp_closed create_at_closed getBodyBuilder_def
        getInductionVars_def getBody_def setInsertionPointToStart_def
        emit_diagnostics_if loop split del: if_split)
    apply (simp add: create_ReduceOp_closed split del: if_split)
    apply (simp add: emit_def split del: if_split)
    done
qed

lemma those_map_Some: "those (map (\<lambda>j. Some (f j)) xs) = Some (map f xs)"
  by (induction xs) auto

lemma index_ops_flat:
  "oper \<in> set (index_ops x shape ovs wvs strides lows v i n inb) \<Longrightarrow>
   op_name oper \<noteq> IfOp \<and> op_name oper \<noteq> ReduceOp"
  by (induction n arbitrary: v i inb) (auto simp: axis_index_ops_def split: if_splits)

lemma fed_flat_prefix:
  assumes "\<forall>oper\<in>set xs. op_name oper \<noteq> IfOp \<and> op_name oper \<noteq> ReduceOp"
  shows "fed_to_reduce M st env (xs @ ys) =
     (case run_flat M env xs of None \<Rightarrow> None | Some env1 \<Rightarrow> fed_to_reduce M st env1 ys)"
  using assms
  by (induction xs arbitrary: env) (auto simp: exec_op_def split: option.splits)

lemma fed_body:
  fixes M :: "('w::len word, 'e) machine" and env :: "('w, 'e) env"
  assumes body: "block_ops st wb =
       mk_op (ConstantOp 1) [] c [IntegerType 1] [] #
       index_ops x shape ovs wvs strides lows (c + 1) 0 n (Value c (IntegerType 1)) @
       [mk_op IfOp [last_in_bounds (c + 1) n (Value c (IntegerType 1))] r [ety] [tb, eb],
        reduce_op] @ rest"
    and red: "op_name reduce_op = ReduceOp" "op_operands reduce_op = [Value r ety]"
    and tb: "block_ops st tb =
       [mk_op LoadOp (x # index_results ovs (c + 1) 0 n) l [ety] [],
        mk_op YieldOp [Value l ety] k [] []]"
    and eb: "block_ops st eb = [mk_op YieldOp [init] k' [] []]"
    and ivs: "\<forall>j<n. env (ovs ! j) = Some (IndexV (os ! j)) \<and> env (wvs ! j) = Some (IndexV (ws ! j)) \<and>
                   vid (ovs ! j) < c \<and> vid (wvs ! j) < c"
    and init: "env init = Some (ElemV neutral)" "vid init < c"
  shows "fed_to_reduce M st env (block_ops st wb) =
     Some (ElemV (if (\<forall>j<n. operand_index strides lows os ws j < operand_extent M x shape j)
                  then memory M x (map (operand_index strides lows os ws) [0..<n])
                  else neutral))"
proof -
  let ?inb = "Value c (IntegerType 1)"
  let ?env0 = "env(?inb \<mapsto> BoolV True)"
  let ?B = "\<forall>j<n. operand_index strides lows os ws j < operand_extent M x shape j"
  have pre: "\<forall>j. 0 \<le> j \<and> j < 0 + n \<longrightarrow>
             ?env0 (ovs ! j) = Some (IndexV (os ! j)) \<and> ?env0 (wvs ! j) = Some (IndexV (ws ! j)) \<and>
             vid (ovs ! j) < c + 1 \<and> vid (wvs ! j) < c + 1"
    using ivs by auto
  have "?env0 ?inb = Some (BoolV True)" "vid ?inb < c + 1" by simp_all
  from index_ops_sem[OF pre this, of M x shape strides lows]
  have "\<exists>env'. run_flat M ?env0 (index_ops x shape ovs wvs strides lows (c + 1) 0 n ?inb) = Some env' \<and>
      env' (last_in_bounds (c + 1) n ?inb) = Some (BoolV ?B) \<and>
      map (index_arg env') (index_results ovs (c + 1) 0 n) =
       map (\<lambda>j. Some (operand_index strides lows os ws j)) [0..<n] \<and>
      (\<forall>y. vid y < c + 1 \<longrightarrow> env' y = ?env0 y)"
    by (simp only: add_0 le0 simp_thms)
  then obtain env' where
    run: "run_flat M ?env0 (index_ops x shape ovs wvs strides lows (c + 1) 0 n ?inb) = Some env'"
    and last: "env' (last_in_bounds (c + 1) n ?inb) = Some (BoolV ?B)"
    and res: "map (index_arg env') (index_results ovs (c + 1) 0 n) =
       map (\<lambda>j. Some (operand_index strides lows os ws j)) [0..<n]"
    and frame: "\<And>y. vid y < c + 1 \<Longrightarrow> env' y = ?env0 y"
    by blast
  have i': "env' init = Some (ElemV neutral)"
    using frame[of init] init by auto
  have flat: "\<forall>oper\<in>set (index_ops x shape ovs wvs strides lows (c + 1) 0 n ?inb).
      op_name oper \<noteq> IfOp \<and> op_name oper \<noteq> ReduceOp"
    using index_ops_flat by blast
  have c0: "exec_op M st env (mk_op (ConstantOp 1) [] c [IntegerType 1] []) = Some ?env0"
    by (simp add: exec_op_def exec_flat_def)
  have th: "exec_region M env' (block_ops st tb) =
      Some (ElemV (memory M x (map (operand_index strides lows os ws) [0..<n])))"
    using res by (simp add: tb exec_flat_def those_map_Some)
  have el: "exec_region M env' (block_ops st eb) = Some (ElemV neutral)"
    by (simp add: eb i')
  have "fed_to_reduce M st env (block_ops st wb) =
      fed_to_reduce M st env'
        ([mk_op IfOp [last_in_bounds (c + 1) n ?inb] r [ety] [tb, eb], reduce_op] @ rest)"
    unfolding body
    using c0 run fed_flat_prefix[OF flat, of M st ?env0
        "[mk_op IfOp [last_in_bounds (c + 1) n ?inb] r [ety] [tb, eb], reduce_op] @ rest"]
    by simp
  also have "\<dots> = Some (ElemV (if ?B then memory M x (map (operand_index strides lows os ws) [0..<n])
                  else neutral))"
    using th el last by (auto simp: exec_op_def bool_arg_def red)
  finally show ?thesis .
qed

lemma map_enumerate_snd: "map (getType \<circ> (\<lambda>(i, t). Value (v + i) t)) (enumerate k tys) = tys"
  by (induction tys arbitrary: k) auto

lemma length_numbered [simp]: "length (numbered v tys) = length tys"
  by (simp add: numbered_def)

lemma nth_numbered: "j < length tys \<Longrightarrow> numbered v tys ! j = Value (v + j) (tys ! j)"
  by (simp add: numbered_def nth_enumerate_eq)

lemma map_getType_numbered [simp]: "map getType (numbered v tys) = tys"
  by (simp add: numbered_def map_enumerate_snd)

lemma window_loops_closed:
  assumes "getType (rw_init_value w) = MemRefType ishape ity"
    "getType (rw_out w) = MemRefType output_shape oty"
    "n = length output_shape" "m = length (window_dimensions w)"
    "fst (insertion_point st) < next_block st" "v = next_value st" "nb = next_block st"
  shows "\<exists>ol wl st1.
     CreateParallelLoopsToTraverseOutputAndWindow w st = Inr ((ol, wl), st1) \<and>
     getNumLoops ol = n \<and> op_regions ol = [nb] \<and> op_regions wl = [Suc nb] \<and>
     initVals wl = [Value v ity] \<and>
     block_args st1 nb = numbered (v + 3 + n) (replicate n IndexType) \<and>
     block_args st1 (Suc nb) = numbered (v + 3 + 2 * n + m) (replicate m IndexType) \<and>
     block_ops st1 (Suc nb) = [yield_terminator] \<and>
     next_value st1 = v + 4 + 2 * n + 2 * m \<and> next_block st1 = nb + 2 \<and>
     diagnostics st1 = diagnostics st"
proof -
  obtain A B d r b0 p0 where st: "st = \<lparr>block_args = A, block_ops = B, next_value = v,
      next_block = nb, insertion_point = (b0, p0), diagnostics = d, replaced = r\<rparr>"
    using assms(6,7) by (cases st) auto
  have ne: "b0 \<noteq> nb" "nb \<noteq> b0" "b0 \<noteq> Suc nb" "Suc nb \<noteq> b0" using assms(5) st by auto
  show ?thesis
    using assms(1,2) ne
    by (simp add: st assms(3,4) numbered_def CreateParallelLoopsToTraverseOutputAndWindow_def
        Let_def isMemRef_def getShape_def create_LoadOp_emit output_bounds_closed
        window_bounds_closed no_bounds_def create_ParallelOp_closed create1_emit create0_emit
        emit_def getInductionVars_def getBody_def setInsertionPointToStart_def getNumLoops_def
        initVals_def) auto
qed

lemma uint_of_sint:
  fixes a :: "'w::len word"
  shows "uint a = (if 0 \<le> sint a then sint a else sint a + 2 ^ LENGTH('w))"
proof -
  have p: "(2::int) ^ LENGTH('w) = 2 * 2 ^ (LENGTH('w) - Suc 0)"
    by (metis len_gt_0 power_Suc Suc_pred)
  have lo: "- (2 ^ (LENGTH('w) - Suc 0)) \<le> sint a" and hi: "sint a < 2 ^ (LENGTH('w) - Suc 0)"
    by (rule sint_greater_eq, rule sint_less)
  have u: "uint a = sint a mod 2 ^ LENGTH('w)"
    by (simp add: uint_sint take_bit_eq_mod)
  show ?thesis
  proof (cases "0 \<le> sint a")
    case True
    then have "sint a mod 2 ^ LENGTH('w) = sint a"
      using hi p by (intro mod_pos_pos_trivial) auto
    then show ?thesis using True u by simp
  next
    case False
    have "(sint a + 2 ^ LENGTH('w)) mod 2 ^ LENGTH('w) = sint a + 2 ^ LENGTH('w)"
      using False lo p by (intro mod_pos_pos_trivial) auto
    then have "sint a mod 2 ^ LENGTH('w) = sint a + 2 ^ LENGTH('w)"
      by simp
    then show ?thesis using False u by simp
  qed
qed

lemma ult_two_sided:
  fixes a b :: "'w::len word"
  assumes "0 \<le> sint b"
  shows "(a < b) = (0 \<le> sint a \<and> sint a < sint b)"
proof -
  have p: "(2::int) ^ LENGTH('w) = 2 * 2 ^ (LENGTH('w) - Suc 0)"
    by (metis len_gt_0 power_Suc Suc_pred)
  have hb: "sint b < 2 ^ (LENGTH('w) - Suc 0)" by (rule sint_less)
  have la: "- (2 ^ (LENGTH('w) - Suc 0)) \<le> sint a" by (rule sint_greater_eq)
  show ?thesis
    using assms hb la p
    by (auto simp: word_less_def uint_of_sint[of a] uint_of_sint[of b])
qed

lemma in_bounds_equiv:
  "extents_non_negative M x shape n \<Longrightarrow>
   in_bounds_unsigned M x shape strides lows os ws n = in_bounds_two_sided M x shape strides lows os ws n"
  by (auto simp: extents_non_negative_def in_bounds_unsigned_def in_bounds_two_sided_def
      list_all_iff ult_two_sided)

lemma in_bounds_unsigned_iff:
  "in_bounds_unsigned M x shape strides lows os ws n =
     (\<forall>j<n. operand_index strides lows os ws j < operand_extent M x shape j)"
  by (auto simp: in_bounds_unsigned_def list_all_iff)

lemma map_eq_nth:
  "map f xs = map g ys \<Longrightarrow> j < length xs \<Longrightarrow> f (xs ! j) = g (ys ! j)"
  by (metis length_map nth_map)


lemma example_env_index:
  "map getType xs = replicate k IndexType \<Longrightarrow>
   map example_env xs = map (\<lambda>a. Some (IndexV a)) (replicate k 0)"
proof (induction xs arbitrary: k)
  case Nil
  then show ?case by simp
next
  case (Cons x xs)
  then show ?case by (cases k) (auto simp: example_env_def)
qed

lemma example_not_in_bounds:
  "\<not> in_bounds_unsigned example_machine x [112, 112] [2, 2] [1, 1] [0, 0] [0, 0] 2"
proof -
  have w: "\<not> ((0::64 word) * 2 + (0 - 1) < 112)"
    by simp
  have u: "[0..<2] = [0, Suc 0]"
    by (simp add: numeral_2_eq_2)
  show ?thesis
    unfolding in_bounds_unsigned_def u
    using w by (simp add: operand_index_def operand_extent_def kDynamicSize_def)
qed


section \<open>Cloning a reduction body\<close>

lemma grows_refl [simp]: "grows st st"
  by (simp add: grows_def)

lemma grows_trans: "grows a b \<Longrightarrow> grows b c \<Longrightarrow> grows a c"
  by (auto simp: grows_def)

lemma grows_fresh_values: "grows st (snd (fresh_values tys st))"
  by (simp add: grows_def fresh_values_def)

lemma grows_new_block: "grows st (snd (new_block tys body_ops st))"
  by (simp add: grows_def new_block_closed)

lemma grows_fill:
  "grows st st2 \<Longrightarrow> next_block st \<le> b \<Longrightarrow> grows st (st2\<lparr>block_ops := (block_ops st2)(b := cs)\<rparr>)"
  by (auto simp: grows_def)

lemma ops_ok_simps [simp]:
  "ops_ok d P B [] = True"
  "ops_ok d P B (oper # rest) = (regions_ok d P B (op_regions oper) \<and> ops_ok d P B rest)"
  by (simp_all add: ops_ok_def)

lemma regions_ok_Suc_simps [simp]:
  "regions_ok d P B [] = True"
  "regions_ok (Suc d) P B (r # rs) = (P r \<and> ops_ok d P B (B r) \<and> regions_ok (Suc d) P B rs)"
  by (cases d) (simp_all add: ops_ok_def)

lemma regions_ok_0_Cons [simp]: "regions_ok 0 P B (r # rs) = False"
  by simp

declare regions_ok.simps [simp del]

lemma clone_regions_step:
  assumes ops: "\<And>ops m st. ops_ok d P B ops \<Longrightarrow>
      \<exists>cs es st'. clone_ops d A B ops m st = Some (cs, es @ m, st') \<and> grows st st' \<and>
        length cs = length ops \<and>
        fst ` set es \<subseteq> (\<Union>oper\<in>set ops. set (op_results oper)) \<union> defined_in P A B"
    and ok: "regions_ok (Suc d) P B regs"
  shows "\<exists>bs es st'. clone_regions (Suc d) A B regs m st = Some (bs, es @ m, st') \<and> grows st st' \<and>
        length bs = length regs \<and> fst ` set es \<subseteq> defined_in P A B"
  using ok
proof (induction regs arbitrary: m st)
  case Nil
  show ?case by simp
next
  case (Cons r rs)
  have P: "P r" and okr: "ops_ok d P B (B r)" and okrs: "regions_ok (Suc d) P B rs"
    using Cons.prems by simp_all
  let ?as = "filter (\<lambda>arg. \<not> contains m arg) (A r)"
  obtain b st1 where nb: "new_block (map getType ?as) [] st = (b, st1)"
    by (cases "new_block (map getType ?as) [] st")
  have b: "b = next_block st" and g1: "grows st st1" and nb1: "next_block st1 = Suc (next_block st)"
    using nb grows_new_block[of st "map getType ?as" "[]"] by (auto simp: new_block_closed)
  let ?m1 = "map_values ?as (block_args st1 b) m"
  obtain cs es st2 where c: "clone_ops d A B (B r) ?m1 st1 = Some (cs, es @ ?m1, st2)"
    and g2: "grows st1 st2"
    and k2: "fst ` set es \<subseteq> (\<Union>oper\<in>set (B r). set (op_results oper)) \<union> defined_in P A B"
    using ops[OF okr, of ?m1 st1] by blast
  let ?st3 = "st2\<lparr>block_ops := (block_ops st2)(b := cs)\<rparr>"
  have g3: "grows st ?st3"
    using grows_fill[OF grows_trans[OF g1 g2], of b cs] b by simp
  obtain bs es' st4 where r: "clone_regions (Suc d) A B rs (es @ ?m1) ?st3 = Some (bs, es' @ es @ ?m1, st4)"
    and g4: "grows ?st3 st4" and l: "length bs = length rs"
    and k4: "fst ` set es' \<subseteq> defined_in P A B"
    using Cons.IH[OF okrs, of "es @ ?m1" ?st3] by blast
  have k1: "fst ` set (rev (zip ?as (block_args st1 b))) \<subseteq> defined_in P A B"
    using P by (auto simp: defined_in_def intro!: exI[of _ r] dest: set_zip_leftD)
  have "(\<Union>oper\<in>set (B r). set (op_results oper)) \<subseteq> defined_in P A B"
    unfolding defined_in_def using P by blast
  then have k2': "fst ` set es \<subseteq> defined_in P A B"
    using k2 by blast
  have e: "es' @ es @ ?m1 = (es' @ es @ rev (zip ?as (block_args st1 b))) @ m"
    by (simp add: map_values_def)
  have "clone_regions (Suc d) A B (r # rs) m st =
      Some (b # bs, (es' @ es @ rev (zip ?as (block_args st1 b))) @ m, st4)"
    using nb c r by (simp add: Let_def e)
  moreover have "grows st st4" using grows_trans[OF g3 g4] .
  moreover have "fst ` set (es' @ es @ rev (zip ?as (block_args st1 b))) \<subseteq> defined_in P A B"
    using k1 k2' k4 by (simp add: image_Un)
  ultimately show ?case using l by (metis length_Cons)
qed

lemma clone_ops_step:
  assumes regs: "\<And>regs m st. regions_ok d P B regs \<Longrightarrow>
      \<exists>bs es st'. clone_regions d A B regs m st = Some (bs, es @ m, st') \<and> grows st st' \<and>
        length bs = length regs \<and> fst ` set es \<subseteq> defined_in P A B"
    and ok: "ops_ok d P B ops"
  shows "\<exists>cs es st'. clone_ops d A B ops m st = Some (cs, es @ m, st') \<and> grows st st' \<and>
        length cs = length ops \<and>
        fst ` set es \<subseteq> (\<Union>oper\<in>set ops. set (op_results oper)) \<union> defined_in P A B"
  using ok
proof (induction ops arbitrary: m st)
  case Nil
  show ?case by simp
next
  case (Cons oper rest)
  have okr: "regions_ok d P B (op_regions oper)" and okrest: "ops_ok d P B rest"
    using Cons.prems by simp_all
  obtain rs st1 where fv: "fresh_values (map getType (op_results oper)) st = (rs, st1)"
    by (cases "fresh_values (map getType (op_results oper)) st")
  have g1: "grows st st1" using fv grows_fresh_values[of st "map getType (op_results oper)"] by simp
  let ?m1 = "map_values (op_results oper) rs m"
  obtain bs es st2 where r: "clone_regions d A B (op_regions oper) ?m1 st1 = Some (bs, es @ ?m1, st2)"
    and g2: "grows st1 st2" and k2: "fst ` set es \<subseteq> defined_in P A B"
    using regs[OF okr, of ?m1 st1] by blast
  obtain cs es' st3 where c: "clone_ops d A B rest (es @ ?m1) st2 = Some (cs, es' @ es @ ?m1, st3)"
    and g3: "grows st2 st3" and l: "length cs = length rest"
    and k3: "fst ` set es' \<subseteq> (\<Union>oper\<in>set rest. set (op_results oper)) \<union> defined_in P A B"
    using Cons.IH[OF okrest, of "es @ ?m1" st2] by blast
  let ?c = "\<lparr>op_name = op_name oper, op_operands = map (lookupOrDefault m) (op_operands oper),
             op_results = rs, op_regions = bs\<rparr>"
  let ?es = "es' @ es @ rev (zip (op_results oper) rs)"
  have e: "es' @ es @ ?m1 = ?es @ m"
    by (simp add: map_values_def)
  have "clone_ops d A B (oper # rest) m st = Some (?c # cs, ?es @ m, st3)"
    using fv r c by (simp add: Let_def e)
  moreover have "grows st st3" using grows_trans[OF grows_trans[OF g1 g2] g3] .
  moreover have "fst ` set ?es \<subseteq> (\<Union>oper\<in>set (oper # rest). set (op_results oper)) \<union> defined_in P A B"
    using k2 k3 by (auto simp: image_Un dest: set_zip_leftD)
  ultimately show ?case using l by (metis length_Cons)
qed

lemma clone_regions_0:
  assumes "regions_ok 0 P B regs"
  shows "\<exists>bs es st'. clone_regions 0 A B regs m st = Some (bs, es @ m, st') \<and> grows st st' \<and>
        length bs = length regs \<and> fst ` set es \<subseteq> defined_in P A B"
proof -
  have "regs = []" using assms by (cases regs) simp_all
  then show ?thesis by simp
qed

lemma clone_regions_ok:
  assumes "regions_ok d P B regs"
  shows "\<exists>bs es st'. clone_regions d A B regs m st = Some (bs, es @ m, st') \<and> grows st st' \<and>
        length bs = length regs \<and> fst ` set es \<subseteq> defined_in P A B"
  using assms
proof (induction d arbitrary: regs m st)
  case 0
  then show ?case by (rule clone_regions_0)
next
  case (Suc d)
  show ?case
    by (rule clone_regions_step[OF _ Suc.prems], rule clone_ops_step[OF Suc.IH])
qed

lemma clone_ops_ok:
  assumes "ops_ok d P B ops"
  shows "\<exists>cs es st'. clone_ops d A B ops m st = Some (cs, es @ m, st') \<and> grows st st' \<and>
        length cs = length ops \<and>
        fst ` set es \<subseteq> (\<Union>oper\<in>set ops. set (op_results oper)) \<union> defined_in P A B"
  by (rule clone_ops_step[OF clone_regions_ok assms])

lemma regions_ok_agree:
  assumes "\<And>r. P r \<Longrightarrow> B' r = B r"
  shows "regions_ok d P B' regs = regions_ok d P B regs"
proof (induction d arbitrary: regs)
  case 0
  show ?case by (cases regs) simp_all
next
  case (Suc d)
  have o: "ops_ok d P B' ops = ops_ok d P B ops" for ops
    by (induction ops) (simp_all add: Suc)
  show ?case
    by (induction regs) (auto simp: o assms)
qed

lemma ops_ok_agree:
  assumes "\<And>r. P r \<Longrightarrow> B' r = B r"
  shows "ops_ok d P B' ops = ops_ok d P B ops"
  by (induction ops) (simp_all add: regions_ok_agree[OF assms])

lemma regions_ok_Suc: "regions_ok d P B regs \<Longrightarrow> regions_ok (Suc d) P B regs"
proof (induction d arbitrary: regs)
  case 0
  then show ?case by (cases regs) simp_all
next
  case (Suc d)
  have o: "ops_ok d P B ops \<Longrightarrow> ops_ok (Suc d) P B ops" for ops
    by (induction ops) (simp_all add: Suc.IH)
  show ?case using Suc.prems
    by (induction regs) (auto simp: o)
qed

lemma regions_ok_mono: "d \<le> e \<Longrightarrow> regions_ok d P B regs \<Longrightarrow> regions_ok e P B regs"
  by (induction e) (auto simp: le_Suc_eq regions_ok_Suc)

lemma ops_ok_mono: "d \<le> e \<Longrightarrow> ops_ok d P B ops \<Longrightarrow> ops_ok e P B ops"
  by (induction ops) (auto simp: regions_ok_mono)

lemma defined_in_agree:
  assumes "\<And>r. P r \<Longrightarrow> B' r = B r \<and> A' r = A r"
  shows "defined_in P A' B' = defined_in P A B"
  using assms by (auto simp: defined_in_def)

lemma inserted_nil [simp]: "inserted [] st st"
  by (simp add: inserted_def ins_nil)

lemma inserted_trans:
  "inserted cs a b \<Longrightarrow> inserted ds b c \<Longrightarrow> inserted (cs @ ds) a c"
  by (auto simp: inserted_def ins_ins)

lemma inserted_emit: "inserted new st (emit new k st)"
  by (simp add: inserted_def emit_block_ops)

lemma cloned_from_weaken:
  "cloned_from K (es @ m) c oper \<Longrightarrow> fst ` set es \<subseteq> K \<Longrightarrow> cloned_from K m c oper"
  unfolding cloned_from_def
  apply (elim conjE exE)
  subgoal for es'
    apply (intro conjI)
       apply assumption+
    apply (rule exI[of _ "es' @ es"])
    apply (simp add: image_Un)
    done
  done

lemma map_getType_fresh: "map getType (fst (fresh_values tys st)) = tys"
  by (simp add: fresh_values_def enumerate_eq_zip map_snd_zip comp_def case_prod_beta)

lemma clone_closed:
  assumes ok: "regions_ok d P (block_ops st) (op_regions oper)" and d: "d \<le> next_block st"
  shows "\<exists>c es st1. clone oper m st = Inr ((c, es @ m), st1) \<and>
     cloned_from K m c oper \<and>
     fst ` set es \<subseteq> set (op_results oper) \<union> defined_in P (block_args st) (block_ops st) \<and>
     inserted [c] st st1"
proof -
  let ?A = "block_args st" and ?B = "block_ops st" and ?n = "next_block st"
  have ok': "regions_ok ?n P ?B (op_regions oper)"
    using regions_ok_mono[OF d ok] .
  obtain rs st0 where fv: "fresh_values (map getType (op_results oper)) st = (rs, st0)"
    by (cases "fresh_values (map getType (op_results oper)) st")
  have g0: "grows st st0" using fv grows_fresh_values[of st "map getType (op_results oper)"] by simp
  have ty: "map getType rs = map getType (op_results oper)"
    using fv map_getType_fresh[of "map getType (op_results oper)" st] by simp
  let ?m1 = "map_values (op_results oper) rs m"
  obtain bs es st2 where r: "clone_regions ?n ?A ?B (op_regions oper) ?m1 st0 = Some (bs, es @ ?m1, st2)"
    and g2: "grows st0 st2" and l: "length bs = length (op_regions oper)"
    and k: "fst ` set es \<subseteq> defined_in P ?A ?B"
    using clone_regions_ok[OF ok', of ?A ?m1 st0] by blast
  let ?c = "\<lparr>op_name = op_name oper, op_operands = map (lookupOrDefault m) (op_operands oper),
             op_results = rs, op_regions = bs\<rparr>"
  let ?es = "es @ rev (zip (op_results oper) rs)"
  let ?pt = "insertion_point st2"
  let ?st1 = "(insert_at ?pt ?c st2)\<lparr>insertion_point := (fst ?pt, Suc (snd ?pt))\<rparr>"
  have g: "grows st st2" using grows_trans[OF g0 g2] .
  have co: "clone_ops ?n ?A ?B [oper] m st = Some ([?c], ?es @ m, st2)"
    using fv r by (simp add: Let_def map_values_def)
  have 1: "clone oper m st = Inr ((?c, ?es @ m), ?st1)"
    unfolding clone_def co by (simp add: Let_def)
  have 2: "cloned_from K m ?c oper"
    unfolding cloned_from_def using ty l by (auto intro: exI[of _ "[]"])
  have 3: "fst ` set ?es \<subseteq> set (op_results oper) \<union> defined_in P ?A ?B"
    using k by (auto simp: image_Un dest: set_zip_leftD)
  have 4: "inserted [?c] st ?st1"
    using g by (auto simp: inserted_def grows_def insert_at_def ins_def)
  show ?thesis using 1 2 3 4 by blast
qed

lemma clone_without_terminator_closed:
  assumes "ops_ok d P (block_ops st) ops" "d \<le> next_block st"
    "\<forall>r. P r \<longrightarrow> r < next_block st \<and> r \<noteq> fst (insertion_point st)"
    "(\<Union>oper\<in>set ops. set (op_results oper)) \<union> defined_in P (block_args st) (block_ops st) \<subseteq> K"
  shows "\<exists>cs m' st'. clone_without_terminator ops m st = Inr (m', st') \<and>
     inserted cs st st' \<and> list_all2 (cloned_from K m) cs ops"
  using assms
proof (induction ops arbitrary: m st)
  case Nil
  show ?case by (simp add: exI[of _ "[]"])
next
  case (Cons oper rest)
  have okr: "regions_ok d P (block_ops st) (op_regions oper)"
    and okrest: "ops_ok d P (block_ops st) rest"
    using Cons.prems(1) by simp_all
  obtain c es st1 where cl: "clone oper m st = Inr ((c, es @ m), st1)"
    and cf': "cloned_from K m c oper"
    and k: "fst ` set es \<subseteq> set (op_results oper) \<union> defined_in P (block_args st) (block_ops st)"
    and i1: "inserted [c] st st1"
    using clone_closed[OF okr Cons.prems(2), of m K] by blast
  have agree: "P r \<Longrightarrow> block_ops st1 r = block_ops st r \<and> block_args st1 r = block_args st r" for r
    using i1 Cons.prems(3) by (auto simp: inserted_def)
  have ok1: "ops_ok d P (block_ops st1) rest"
    using okrest ops_ok_agree[of P "block_ops st1" "block_ops st" d rest] agree by simp
  have d1: "d \<le> next_block st1" using Cons.prems(2) i1 by (simp add: inserted_def)
  have P1: "\<forall>r. P r \<longrightarrow> r < next_block st1 \<and> r \<noteq> fst (insertion_point st1)"
    using Cons.prems(3) i1 by (auto simp: inserted_def)
  have K1: "(\<Union>oper\<in>set rest. set (op_results oper)) \<union> defined_in P (block_args st1) (block_ops st1) \<subseteq> K"
    using Cons.prems(4) defined_in_agree[of P "block_ops st1" "block_ops st" "block_args st1" "block_args st"] agree
    by auto
  let ?m2 = "map_values (op_results oper) (op_results c) (es @ m)"
  let ?es2 = "rev (zip (op_results oper) (op_results c)) @ es"
  have m2: "?m2 = ?es2 @ m" by (simp add: map_values_def)
  have k2: "fst ` set ?es2 \<subseteq> K"
    using k Cons.prems(4) by (auto simp: image_Un dest: set_zip_leftD)
  obtain cs m' st' where w: "clone_without_terminator rest ?m2 st1 = Inr (m', st')"
    and i2: "inserted cs st1 st'" and la: "list_all2 (cloned_from K ?m2) cs rest"
    using Cons.IH[OF ok1 d1 P1 K1, of ?m2] by blast
  have wk: "cloned_from K (?es2 @ m) c' o' \<Longrightarrow> cloned_from K m c' o'" for c' o'
    by (rule cloned_from_weaken[OF _ k2])
  have la': "list_all2 (cloned_from K m) cs rest"
    by (rule list_all2_mono[OF la[unfolded m2] wk])
  have "clone_without_terminator (oper # rest) m st = Inr (m', st')"
    using cl w by simp
  moreover have "inserted (c # cs) st st'"
    using inserted_trans[OF i1 i2] by simp
  moreover have "list_all2 (cloned_from K m) (c # cs) (oper # rest)"
    using cf' la' by simp
  ultimately show ?case by blast
qed

section \<open>The loop nest of the plain reduction\<close>

lemma reduce_create_closed:
  assumes "operands w = x # xs" "out w = outv # os"
    "getType x = MemRefType shape ety" "init_values w = i # is"
    "getType i = MemRefType ishape iety"
    "fst (insertion_point st) < next_block st"
    "R = reducing_dims_of w" "n = length shape"
    "ib = (if kept_before R n = 0 then next_block st else Suc (next_block st))"
  shows "\<exists>reduce_op st1 load_init outer inner c0 store load idx p0 p1 tail.
     Reduce_CreateReduceOpInNestedParallelLoops w st = Inr (reduce_op, st1) \<and>
     block_ops st1 (fst (insertion_point st)) =
       ins (snd (insertion_point st)) (partition_ops x (next_value st) 0 shape @ load_init # tail)
         (block_ops st (fst (insertion_point st))) \<and>
     op_name load_init = LoadOp \<and> op_operands load_init = [i] \<and>
     (if kept_before R n = 0 then tail = [inner, c0, store]
      else tail = [outer] \<and> is_ParallelOp (op_name outer) \<and> op_regions outer = [next_block st] \<and>
           block_ops st1 (next_block st) = [inner, store, yield_terminator]) \<and>
     is_ParallelOp (op_name inner) \<and> op_regions inner = [ib] \<and>
     initVals inner = op_results load_init \<and>
     op_name store = StoreOp \<and> take 2 (op_operands store) = op_results inner @ [outv] \<and>
     block_ops st1 ib = [load, reduce_op, yield_terminator] \<and>
     op_name load = LoadOp \<and> op_operands load = x # idx \<and> length idx = n \<and>
     op_name reduce_op = ReduceOp \<and> op_operands reduce_op = op_results load \<and>
     op_regions reduce_op = [Suc ib] \<and>
     block_args st1 (Suc ib) = [p0, p1] \<and> block_ops st1 (Suc ib) = [] \<and>
     next_block st1 = Suc (Suc ib) \<and>
     diagnostics st1 = diagnostics st \<and> replaced st1 = replaced st \<and>
     (\<forall>r<next_block st. block_args st1 r = block_args st r \<and>
        (r \<noteq> fst (insertion_point st) \<longrightarrow> block_ops st1 r = block_ops st r))"
proof -
  obtain A B v nb b0 p0 d r where st: "st = \<lparr>block_args = A, block_ops = B, next_value = v,
      next_block = nb, insertion_point = (b0, p0), diagnostics = d, replaced = r\<rparr>"
    by (cases st) auto
  have ne: "b0 \<noteq> nb" "nb \<noteq> b0" "b0 \<noteq> Suc nb" "Suc nb \<noteq> b0" "b0 \<noteq> Suc (Suc nb)"
    using assms(6) st by auto
  have s: "reduced_before R n + kept_before R n = n" by (rule before_sum)
  show ?thesis
  proof (cases "kept_before R n = 0")
    case True
    show ?thesis
      using assms(1-5) ne True s
      by (simp add: st assms(7-9) Reduce_CreateReduceOpInNestedParallelLoops_def Let_def isMemRef_def getShape_def
        partition_dims_closed create_LoadOp_emit no_bounds_def axis_values_no_kept
        create_ParallelOp_closed create1_emit create0_emit emit_def create_ReduceOp_closed
        load_indices_None length_axis_values_count getInductionVars_def getBody_def mk_op_def
        setInsertionPointToStart_def is_ParallelOp_def initVals_def)
  next
    case False
    then have pos: "0 < kept_before R n" by simp
    show ?thesis
      using assms(1-5) ne False s
      by (simp add: st assms(7-9) Reduce_CreateReduceOpInNestedParallelLoops_def Let_def isMemRef_def getShape_def
        partition_dims_closed create_LoadOp_emit no_bounds_def axis_values_kept[OF pos[unfolded assms(7-8)]]
        create_ParallelOp_closed create1_emit create0_emit emit_def create_ReduceOp_closed
        load_indices_Some length_axis_values_count getInductionVars_def getBody_def mk_op_def
        setInsertionPointToStart_def is_ParallelOp_def initVals_def)
  qed
qed

section \<open>The reduction operator\<close>

lemma setInsertionPointToStart_proj [simp]:
  "next_value (setInsertionPointToStart b st) = next_value st"
  "next_block (setInsertionPointToStart b st) = next_block st"
  "block_args (setInsertionPointToStart b st) = block_args st"
  "block_ops (setInsertionPointToStart b st) = block_ops st"
  "diagnostics (setInsertionPointToStart b st) = diagnostics st"
  "replaced (setInsertionPointToStart b st) = replaced st"
  "insertion_point (setInsertionPointToStart b st) = (b, 0)"
  by (simp_all add: setInsertionPointToStart_def)

lemma inserted_frame:
  assumes "inserted cs st st'" "r < next_block st" "r \<noteq> fst (insertion_point st)"
  shows "block_ops st' r = block_ops st r" "block_args st' r = block_args st r"
  using assms by (auto simp: inserted_def)

lemma convert_closed:
  assumes rg: "op_regions reduce_op = rb # regs"
    and ra: "block_args st rb = p0 # p1 # ps"
    and la: "block_args st lhlo_block = e # a # largs"
    and mem: "isMemRef (getType e)" "isMemRef (getType a)"
    and ne: "lhlo_block \<noteq> rb"
    and ok: "ops_ok d P (block_ops st) (butlast (block_ops st lhlo_block))"
    and d: "d \<le> next_block st"
    and P: "\<forall>r. P r \<longrightarrow> r < next_block st \<and> r \<noteq> rb"
    and K: "(\<Union>oper\<in>set (butlast (block_ops st lhlo_block)). set (op_results oper)) \<union>
              defined_in P (block_args st) (block_ops st) \<subseteq> K"
  shows "\<exists>st' cs load ret.
     ConvertToReductionOperator reduce_op lhlo_block st = Inr ((), st') \<and>
     inserted ([mk_op AllocOp [] (next_value st) [getType e] [],
                mk_op StoreOp [p0, Value (next_value st) (getType e)] (Suc (next_value st)) [] [],
                mk_op AllocOp [] (Suc (next_value st)) [getType a] [],
                mk_op StoreOp [p1, Value (Suc (next_value st)) (getType a)] (Suc (Suc (next_value st))) [] []] @ cs @ [load, ret])
       (setInsertionPointToStart rb st) st' \<and>
     list_all2 (cloned_from K
        (map_values (e # a # largs)
           [Value (next_value st) (getType e), Value (Suc (next_value st)) (getType a), Value (Suc (next_value st)) (getType a)] [])) cs
        (butlast (block_ops st lhlo_block)) \<and>
     op_name load = LoadOp \<and> op_operands load = [Value (Suc (next_value st)) (getType a)] \<and>
     op_name ret = ReduceReturnOp \<and> op_operands ret = op_results load \<and>
     length (op_results load) = 1"
proof -
  define st0 where "st0 = setInsertionPointToStart rb st"
  let ?four = "[mk_op AllocOp [] (next_value st) [getType e] [],
                mk_op StoreOp [p0, Value (next_value st) (getType e)] (Suc (next_value st)) [] [],
                mk_op AllocOp [] (Suc (next_value st)) [getType a] [],
                mk_op StoreOp [p1, Value (Suc (next_value st)) (getType a)] (Suc (Suc (next_value st))) [] []]"
  define st4 where "st4 = emit ?four 2 st0"
  let ?m0 = "map_values (e # a # largs)
           [Value (next_value st) (getType e), Value (Suc (next_value st)) (getType a), Value (Suc (next_value st)) (getType a)] []"
  let ?body = "butlast (block_ops st lhlo_block)"
  have b4: "block_ops st4 lhlo_block = block_ops st lhlo_block"
    using ne by (simp add: st4_def st0_def emit_block_ops)
  have pre: "ConvertToReductionOperator reduce_op lhlo_block st =
     (case clone_without_terminator ?body ?m0 st4 of
        Inl e \<Rightarrow> Inl e
      | Inr (mapping', st5) \<Rightarrow>
     (case create_LoadOp (Value (Suc (next_value st)) (getType a)) [] st5 of
        Inl e \<Rightarrow> Inl e
      | Inr (acc_result, st6) \<Rightarrow>
          Inr ((), create0 ReduceReturnOp [acc_result] st6)))"
    using mem ne
    by (simp add: ConvertToReductionOperator_def rg ra la getArgument_def create1_emit
        create0_emit emit_emit Let_def st4_def st0_def emit_block_ops eval_nat_numeral)
  have i4: "inserted ?four st0 st4"
    unfolding st4_def by (rule inserted_emit)
  have agree: "P r \<Longrightarrow> block_ops st4 r = block_ops st r \<and> block_args st4 r = block_args st r" for r
    using P by (auto simp: st4_def st0_def emit_block_ops)
  have ok4: "ops_ok d P (block_ops st4) ?body"
    using ok ops_ok_agree[of P "block_ops st4" "block_ops st" d ?body] agree by simp
  have d4: "d \<le> next_block st4" using d by (simp add: st4_def st0_def)
  have P4: "\<forall>r. P r \<longrightarrow> r < next_block st4 \<and> r \<noteq> fst (insertion_point st4)"
    using P by (simp add: st4_def st0_def)
  have K4: "(\<Union>oper\<in>set ?body. set (op_results oper)) \<union> defined_in P (block_args st4) (block_ops st4) \<subseteq> K"
    using K defined_in_agree[of P "block_ops st4" "block_ops st" "block_args st4" "block_args st"] agree
    by auto
  obtain cs m' st5 where w: "clone_without_terminator ?body ?m0 st4 = Inr (m', st5)"
    and i5: "inserted cs st4 st5" and la5: "list_all2 (cloned_from K ?m0) cs ?body"
    using clone_without_terminator_closed[OF ok4 d4 P4 K4, of ?m0] by blast
  obtain sh ty where ta: "getType a = MemRefType sh ty"
    using mem(2) by (cases "getType a") (simp_all add: isMemRef_def)
  let ?load = "mk_op LoadOp [Value (Suc (next_value st)) (getType a)] (next_value st5) [ty] []"
  let ?ret = "mk_op ReduceReturnOp [Value (next_value st5) ty] (Suc (next_value st5)) [] []"
  define st' where "st' = emit [?load, ?ret] 1 st5"
  have fin: "ConvertToReductionOperator reduce_op lhlo_block st = Inr ((), st')"
    unfolding pre w
    by (simp add: create_LoadOp_emit[where sh = sh and ety = ty] ta create0_emit emit_emit st'_def)
  have i6: "inserted [?load, ?ret] st5 st'"
    unfolding st'_def by (rule inserted_emit)
  have i: "inserted (?four @ cs @ [?load, ?ret]) st0 st'"
    using inserted_trans[OF i4 inserted_trans[OF i5 i6]] .
  have l: "op_name ?load = LoadOp" "op_operands ?load = [Value (Suc (next_value st)) (getType a)]"
    "op_name ?ret = ReduceReturnOp" "op_operands ?ret = op_results ?load"
    "length (op_results ?load) = 1"
    by simp_all
  show ?thesis
    using fin i[unfolded st0_def] la5 l by blast
qed

section \<open>Reductions with several operands\<close>

lemma replaceOp_proj [simp]:
  "block_ops (replaceOp h st) = block_ops st" "block_args (replaceOp h st) = block_args st"
  "replaced (replaceOp h st) = replaced st @ [h]" "diagnostics (replaceOp h st) = diagnostics st"
  by (simp_all add: replaceOp_def)

lemma reduce_rewrite_closed:
  assumes "length (out w) = 1" "operands w = x # xs" "init_values w = i # is"
    "getType x = MemRefType shape ety" "getType i = MemRefType ishape iety"
    "fst (insertion_point st) < next_block st"
    "body w < next_block st" "body w \<noteq> fst (insertion_point st)"
    "block_args st (body w) = e # a # largs" "isMemRef (getType e)" "isMemRef (getType a)"
    "ops_ok (next_block st) (\<lambda>r. r < next_block st \<and> r \<noteq> fst (insertion_point st))
       (block_ops st) (butlast (block_ops st (body w)))"
    "R = reducing_dims_of w" "n = length shape"
    "ib = (if kept_before R n = 0 then next_block st else Suc (next_block st))"
  shows "\<exists>st2 load_init outer inner c0 store load idx reduce_op tail.
     Reduce_matchAndRewrite w st = Inr (success, st2) \<and>
     replaced st2 = replaced st @ [reduce_handle w] \<and>
     block_ops st2 (fst (insertion_point st)) =
       ins (snd (insertion_point st)) (partition_ops x (next_value st) 0 shape @ load_init # tail)
         (block_ops st (fst (insertion_point st))) \<and>
     op_name load_init = LoadOp \<and> op_operands load_init = [i] \<and>
     (if kept_before R n = 0 then tail = [inner, c0, store]
      else tail = [outer] \<and> is_ParallelOp (op_name outer) \<and> op_regions outer = [next_block st] \<and>
           block_ops st2 (next_block st) = [inner, store, yield_terminator]) \<and>
     is_ParallelOp (op_name inner) \<and> op_regions inner = [ib] \<and>
     initVals inner = op_results load_init \<and>
     block_ops st2 ib = [load, reduce_op, yield_terminator] \<and>
     op_name load = LoadOp \<and> op_operands load = x # idx \<and> length idx = n \<and>
     op_name reduce_op = ReduceOp \<and> op_operands reduce_op = op_results load"
proof -
  let ?P = "\<lambda>r. r < next_block st \<and> r \<noteq> fst (insertion_point st)"
  let ?b0 = "fst (insertion_point st)"
  have o: "out w = hd (out w) # tl (out w)"
    using assms(1) by (cases "out w") simp_all
  obtain reduce_op st1 load_init outer inner c0 store load idx p0 p1 tail where
    c: "Reduce_CreateReduceOpInNestedParallelLoops w st = Inr (reduce_op, st1)"
    and b0: "block_ops st1 ?b0 =
       ins (snd (insertion_point st)) (partition_ops x (next_value st) 0 shape @ load_init # tail)
         (block_ops st ?b0)"
    and li: "op_name load_init = LoadOp" "op_operands load_init = [i]"
    and tl: "if kept_before R n = 0 then tail = [inner, c0, store]
      else tail = [outer] \<and> is_ParallelOp (op_name outer) \<and> op_regions outer = [next_block st] \<and>
           block_ops st1 (next_block st) = [inner, store, yield_terminator]"
    and inn: "is_ParallelOp (op_name inner)" "op_regions inner = [ib]"
      "initVals inner = op_results load_init"
    and ibo: "block_ops st1 ib = [load, reduce_op, yield_terminator]"
    and ld: "op_name load = LoadOp" "op_operands load = x # idx" "length idx = n"
    and ro: "op_name reduce_op = ReduceOp" "op_operands reduce_op = op_results load"
      "op_regions reduce_op = [Suc ib]"
    and rb: "block_args st1 (Suc ib) = [p0, p1]"
    and nb1: "next_block st1 = Suc (Suc ib)"
    and rp: "replaced st1 = replaced st"
    and fr: "\<forall>r<next_block st. block_args st1 r = block_args st r \<and>
        (r \<noteq> ?b0 \<longrightarrow> block_ops st1 r = block_ops st r)"
    using reduce_create_closed[OF assms(2) o assms(4,3,5,6,13,14,15)] by blast
  have ibn: "next_block st \<le> ib" "ib \<le> Suc (next_block st)" using assms(15) by auto
  have la1: "block_args st1 (body w) = e # a # largs"
    using fr assms(7,9) by simp
  have bo1: "block_ops st1 (body w) = block_ops st (body w)"
    using fr assms(7,8) by simp
  have ne: "body w \<noteq> Suc ib" using assms(7) ibn by simp
  have agree: "?P r \<Longrightarrow> block_ops st1 r = block_ops st r" for r
    using fr by simp
  have ok1: "ops_ok (next_block st) ?P (block_ops st1) (butlast (block_ops st1 (body w)))"
    unfolding bo1 using assms(12) ops_ok_agree[of ?P "block_ops st1" "block_ops st"] agree by simp
  have d1: "next_block st \<le> next_block st1" using nb1 ibn by simp
  have P1: "\<forall>r. ?P r \<longrightarrow> r < next_block st1 \<and> r \<noteq> Suc ib" using nb1 ibn by auto
  obtain st' where cv: "ConvertToReductionOperator reduce_op (body w) st1 = Inr ((), st')"
    and ins: "\<exists>cs. inserted cs (setInsertionPointToStart (Suc ib) st1) st'"
    using convert_closed[OF ro(3) rb la1 assms(10,11) ne ok1 d1 P1, of UNIV] by auto
  have same: "r < next_block st1 \<Longrightarrow> r \<noteq> Suc ib \<Longrightarrow> block_ops st' r = block_ops st1 r" for r
    using ins by (auto simp: inserted_def)
  have rp': "replaced st' = replaced st1"
    using ins by (auto simp: inserted_def)
  have m: "Reduce_matchAndRewrite w st = Inr (success, replaceOp (reduce_handle w) st')"
    using assms(1) c cv by (simp add: Reduce_matchAndRewrite_def)
  have f0: "block_ops st' ?b0 = block_ops st1 ?b0"
    using same[of ?b0] assms(6) nb1 ibn by simp
  have f1: "block_ops st' ib = block_ops st1 ib"
    using same[of ib] nb1 by simp
  have f2: "block_ops st' (next_block st) = block_ops st1 (next_block st)"
    using same[of "next_block st"] nb1 ibn by simp
  show ?thesis
    apply (rule exI[of _ "replaceOp (reduce_handle w) st'"])
    apply (rule exI[of _ load_init], rule exI[of _ outer], rule exI[of _ inner])
    apply (rule exI[of _ c0], rule exI[of _ store], rule exI[of _ load])
    apply (rule exI[of _ idx], rule exI[of _ reduce_op], rule exI[of _ tail])
    using m rp rp' b0 li tl inn ibo ld ro(1,2)
    apply (simp add: f0 f1 f2)
    done
qed

lemma ex_two_fields:
  "length (out example_reduce_two) = 1"
  "operands example_reduce_two =
     Value 0 (MemRefType [100, 10, 5] f32) # [Value 2 (MemRefType [100, 5] f32)]"
  "init_values example_reduce_two = Value 1 scalar_buffer # [Value 2 (MemRefType [100, 5] f32)]"
  "body example_reduce_two = 1" "reduce_handle example_reduce_two = 0"
  "reducing_dims_of example_reduce_two = reducing_dims_of example_reduce_1"
  "example_reduce_two\<lparr>operands := [Value 0 (MemRefType [100, 10, 5] f32)],
                      init_values := [Value 1 scalar_buffer]\<rparr> = example_reduce_1"
  by (simp_all add: example_reduce_two_def example_reduce_1_def example_reduce_def
      reducing_dims_of_def)

lemma ex1_body:
  "block_args example_rewriter_1 1 =
     Value 3 scalar_buffer # Value 4 scalar_buffer # [Value 5 scalar_buffer]"
  "butlast (block_ops example_rewriter_1 1) =
     [other_op ''xla_lhlo.maximum''
        [Value 3 scalar_buffer, Value 4 scalar_buffer, Value 5 scalar_buffer] []]"
  "block_ops example_rewriter_1 0 =
     [other_op ''reduction''
        [Value 0 (MemRefType [100, 10, 5] f32), Value 1 scalar_buffer,
         Value 2 (MemRefType [100, 5] f32)] [1],
      other_op ''std.return'' [] []]"
  "replaced example_rewriter_1 = []"
  by (simp_all add: example_rewriter_1_def example_rewriter_def)

text \<open>
  C10: a plain reduction with one output, at least one operand and at least one
  initial value, whose first operand and first initial value are buffers and whose
  body is a block of the module with two buffer parameters, is converted: the rewrite
  succeeds and replaces the operation. The initial value of the reduction loop is
  loaded from the first initial-value buffer, the element fed to \<^verbatim>\<open>loop.reduce\<close> is
  loaded from the first operand buffer with one index per axis, and the whole outcome
  (result, emitted operations, diagnostics) is the outcome for the same operation
  with only its first operand and first initial value: no other operand or initial
  value is read. The regions nested in the body are blocks of the module other than
  the one the rewriter inserts into.
\<close>

theorem only_first_operand_and_init_value_read:
  assumes "length (out w) = 1" "operands w = x # xs" "init_values w = i # is"
    "getType x = MemRefType shape ety" "getType i = MemRefType ishape iety"
    "fst (insertion_point st) < next_block st"
    "body w < next_block st" "body w \<noteq> fst (insertion_point st)"
    "block_args st (body w) = e # a # largs" "isMemRef (getType e)" "isMemRef (getType a)"
    "ops_ok (next_block st) (\<lambda>r. r < next_block st \<and> r \<noteq> fst (insertion_point st))
       (block_ops st) (butlast (block_ops st (body w)))"
    "R = reducing_dims_of w" "n = length shape"
    "ib = (if kept_before R n = 0 then next_block st else Suc (next_block st))"
  shows "(\<exists>st2 load_init outer inner c0 store load idx reduce_op tail.
     Reduce_matchAndRewrite w st = Inr (success, st2) \<and>
     replaced st2 = replaced st @ [reduce_handle w] \<and>
     block_ops st2 (fst (insertion_point st)) =
       ins (snd (insertion_point st)) (partition_ops x (next_value st) 0 shape @ load_init # tail)
         (block_ops st (fst (insertion_point st))) \<and>
     op_name load_init = LoadOp \<and> op_operands load_init = [i] \<and>
     (if kept_before R n = 0 then tail = [inner, c0, store]
      else tail = [outer] \<and> is_ParallelOp (op_name outer) \<and> op_regions outer = [next_block st] \<and>
           block_ops st2 (next_block st) = [inner, store, yield_terminator]) \<and>
     is_ParallelOp (op_name inner) \<and> op_regions inner = [ib] \<and>
     initVals inner = op_results load_init \<and>
     block_ops st2 ib = [load, reduce_op, yield_terminator] \<and>
     op_name load = LoadOp \<and> op_operands load = x # idx \<and> length idx = n \<and>
     op_name reduce_op = ReduceOp \<and> op_operands reduce_op = op_results load) \<and>
   Reduce_matchAndRewrite w st =
     Reduce_matchAndRewrite (w\<lparr>operands := [x], init_values := [i]\<rparr>) st"
proof
  show "Reduce_matchAndRewrite w st =
           Reduce_matchAndRewrite (w\<lparr>operands := [x], init_values := [i]\<rparr>) st"
    using create_first_operand_only[OF assms(2,3), of st]
    by (simp add: Reduce_matchAndRewrite_def cong: sum.case_cong prod.case_cong)
qed (rule reduce_rewrite_closed[OF assms])

theorem only_first_operand_and_init_value_read_witness:
  "\<exists>st2 load_init outer inner store load idx reduce_op.
     Reduce_matchAndRewrite example_reduce_two example_rewriter_1 = Inr (success, st2) \<and>
     Reduce_matchAndRewrite example_reduce_two example_rewriter_1 =
       Reduce_matchAndRewrite example_reduce_1 example_rewriter_1 \<and>
     replaced st2 = [0] \<and>
     block_ops st2 0 =
       partition_ops (Value 0 (MemRefType [100, 10, 5] f32)) 6 0 [100, 10, 5] @ [load_init, outer] @
       block_ops example_rewriter_1 0 \<and>
     op_name load_init = LoadOp \<and> op_operands load_init = [Value 1 scalar_buffer] \<and>
     op_regions outer = [2] \<and> block_ops st2 2 = [inner, store, yield_terminator] \<and>
     op_regions inner = [3] \<and> initVals inner = op_results load_init \<and>
     block_ops st2 3 = [load, reduce_op, yield_terminator] \<and>
     op_name load = LoadOp \<and> op_operands load = Value 0 (MemRefType [100, 10, 5] f32) # idx \<and>
     length idx = 3 \<and> op_operands reduce_op = op_results load"
proof -
  let ?R = "reducing_dims_of example_reduce_two"
  have k: "kept_before ?R 3 = 2"
    by (simp add: ex_two_fields ex1_before)
  have h4: "getType (Value 0 (MemRefType [100, 10, 5] f32)) = MemRefType [100, 10, 5] f32"
    and h5: "getType (Value 1 scalar_buffer) = MemRefType [] f32"
    and h10: "isMemRef (getType (Value 3 scalar_buffer))"
    and h11: "isMemRef (getType (Value 4 scalar_buffer))"
    by (simp_all add: scalar_buffer_def isMemRef_def)
  have h6: "fst (insertion_point example_rewriter_1) < next_block example_rewriter_1"
    and h7: "body example_reduce_two < next_block example_rewriter_1"
    and h8: "body example_reduce_two \<noteq> fst (insertion_point example_rewriter_1)"
    by (simp_all add: ex1_fields ex_two_fields)
  have h9: "block_args example_rewriter_1 (body example_reduce_two) =
      Value 3 scalar_buffer # Value 4 scalar_buffer # [Value 5 scalar_buffer]"
    by (simp only: ex_two_fields ex1_body)
  have h12: "ops_ok (next_block example_rewriter_1)
       (\<lambda>r. r < next_block example_rewriter_1 \<and> r \<noteq> fst (insertion_point example_rewriter_1))
       (block_ops example_rewriter_1)
       (butlast (block_ops example_rewriter_1 (body example_reduce_two)))"
    unfolding ex_two_fields(4) ex1_body(2) by (simp add: other_op_def)
  have h14: "3 = length [100, 10, 5::int]" by simp
  have h15: "3 = (if kept_before ?R 3 = 0 then next_block example_rewriter_1
                  else Suc (next_block example_rewriter_1))"
    by (simp add: k ex1_fields)
  note t = only_first_operand_and_init_value_read[OF ex_two_fields(1-3) h4 h5 h6 h7 h8 h9 h10 h11
      h12 refl h14 h15]
  have e: "Reduce_matchAndRewrite example_reduce_two example_rewriter_1 =
       Reduce_matchAndRewrite example_reduce_1 example_rewriter_1"
    using t[THEN conjunct2] by (simp only: ex_two_fields(7))
  obtain st2 load_init outer inner c0 store load idx reduce_op tail where
    f: "Reduce_matchAndRewrite example_reduce_two example_rewriter_1 = Inr (success, st2)"
      "replaced st2 = replaced example_rewriter_1 @ [reduce_handle example_reduce_two]"
      "block_ops st2 (fst (insertion_point example_rewriter_1)) =
       ins (snd (insertion_point example_rewriter_1))
         (partition_ops (Value 0 (MemRefType [100, 10, 5] f32)) (next_value example_rewriter_1) 0
            [100, 10, 5] @ load_init # tail)
         (block_ops example_rewriter_1 (fst (insertion_point example_rewriter_1)))"
      "op_name load_init = LoadOp" "op_operands load_init = [Value 1 scalar_buffer]"
      "if kept_before ?R 3 = 0 then tail = [inner, c0, store]
       else tail = [outer] \<and> is_ParallelOp (op_name outer) \<and>
            op_regions outer = [next_block example_rewriter_1] \<and>
            block_ops st2 (next_block example_rewriter_1) = [inner, store, yield_terminator]"
      "op_regions inner = [3]" "initVals inner = op_results load_init"
      "block_ops st2 3 = [load, reduce_op, yield_terminator]"
      "op_name load = LoadOp" "op_operands load = Value 0 (MemRefType [100, 10, 5] f32) # idx"
      "length idx = 3" "op_operands reduce_op = op_results load"
    using t[THEN conjunct1] by blast
  have g: "tail = [outer]" "op_regions outer = [2]" "block_ops st2 2 = [inner, store, yield_terminator]"
    using f(6) by (simp_all add: k ex1_fields)
  have b: "block_ops st2 0 =
       partition_ops (Value 0 (MemRefType [100, 10, 5] f32)) 6 0 [100, 10, 5] @ [load_init, outer] @
       block_ops example_rewriter_1 0"
    using f(3) by (simp add: ex1_fields g(1) ins_0 del: partition_ops.simps)
  have r: "replaced st2 = [0]"
    using f(2) by (simp add: ex1_body ex_two_fields)
  show ?thesis
    using f(1) e r b f(4,5) g(2,3) f(7-13) by blast
qed

section \<open>Windowed reductions without strides or padding\<close>

lemma new_block_proj [simp]:
  "fst (new_block tys body_ops st) = next_block st"
  "next_value (snd (new_block tys body_ops st)) = next_value st + length tys"
  "diagnostics (snd (new_block tys body_ops st)) = diagnostics st"
  by (simp_all add: new_block_closed)

lemma create_ParallelOp_folded:
  "create_ParallelOp lbs ubs steps inits st =
     (mk_op (ParallelOp (length lbs) (length ubs) (length steps) (length inits))
        (lbs @ ubs @ steps @ inits) (next_value st + length steps) (map getType inits) [next_block st],
      emit [mk_op (ParallelOp (length lbs) (length ubs) (length steps) (length inits))
        (lbs @ ubs @ steps @ inits) (next_value st + length steps) (map getType inits) [next_block st]]
        (length inits)
        (snd (new_block (replicate (length steps) IndexType) [yield_terminator] st)))"
  by (simp add: create_ParallelOp_def create_emit split_beta)

lemma window_loops_succeed:
  assumes "isMemRef (getType (rw_init_value w))" "isMemRef (getType (rw_out w))"
  shows "\<exists>ol wl st1. CreateParallelLoopsToTraverseOutputAndWindow w st = Inr ((ol, wl), st1) \<and>
     diagnostics st1 = diagnostics st"
  using assms
  by (simp add: CreateParallelLoopsToTraverseOutputAndWindow_def
      Let_def create_LoadOp_def output_bounds_closed
      window_bounds_closed create_ParallelOp_folded create1_emit create0_emit)

lemma missing_attribute_outcome:
  assumes "window_strides w = None \<or> padding w = None"
  shows "Window_CreateReduceOpInNestedParallelLoops w ol wl st =
     Inl (if isMemRef (getType (rw_operand w)) then NoValue else BadCast,
          (setInsertionPointToStart (getBody wl) st)
            \<lparr>diagnostics := diagnostics st @ missing_attribute_errors w @ remark_if_dilated w\<rparr>)"
  using assms
  by (auto simp: Window_CreateReduceOpInNestedParallelLoops_def Let_def emitOpError_def
      emitRemark_def missing_attribute_errors_def dilation_remark_def remark_if_dilated_def
      split: option.splits)

lemma window_rewrite_missing:
  assumes "window_strides w = None \<or> padding w = None"
    "isMemRef (getType (rw_init_value w))" "isMemRef (getType (rw_out w))"
  shows "\<exists>st'. Window_matchAndRewrite w st =
       Inl (if isMemRef (getType (rw_operand w)) then NoValue else BadCast, st') \<and>
     diagnostics st' = diagnostics st @ missing_attribute_errors w @ remark_if_dilated w"
proof -
  obtain ol wl st1 where c: "CreateParallelLoopsToTraverseOutputAndWindow w st = Inr ((ol, wl), st1)"
    and d: "diagnostics st1 = diagnostics st"
    using window_loops_succeed[OF assms(2,3)] by blast
  show ?thesis
    by (simp add: Window_matchAndRewrite_def c missing_attribute_outcome[OF assms(1)] d)
qed

lemma window_rewrite_never_declines:
  "Window_matchAndRewrite w st \<noteq> Inr (failure, s)"
  by (auto simp: Window_matchAndRewrite_def split: sum.splits prod.splits)

lemma example_window_fields:
  "window_strides (example_window s p) = s" "padding (example_window s p) = p"
  "base_dilations (example_window s p) = None" "window_dilations (example_window s p) = None"
  "rw_handle (example_window s p) = 0"
  "isMemRef (getType (rw_operand (example_window s p)))"
  "isMemRef (getType (rw_init_value (example_window s p)))"
  "isMemRef (getType (rw_out (example_window s p)))"
  "diagnostics example_window_rewriter = []"
  by (simp_all add: example_window_def isMemRef_def scalar_buffer_def example_window_rewriter_def
      example_rewriter_def)

text \<open>
  C7: a windowed reduction without the \<^verbatim>\<open>window_strides\<close> or without the \<^verbatim>\<open>padding\<close>
  attribute gets an error diagnostic on the operation for each of the two that is
  missing, and the converter does not decline there: it goes on to the check of the
  dilation attributes, whose remark follows the errors in the diagnostics, and to the
  cast of the operand type. The pattern never reports failure. What stops the run is
  the next statement, which reads the value of the absent attribute: the outcome is
  that error branch, whatever loops were passed in.
\<close>

theorem missing_attribute_reported_not_declined:
  assumes "window_strides w = None \<or> padding w = None"
    "isMemRef (getType (rw_init_value w))" "isMemRef (getType (rw_out w))"
  shows "(\<exists>st'. Window_matchAndRewrite w st =
            Inl (if isMemRef (getType (rw_operand w)) then NoValue else BadCast, st') \<and>
          diagnostics st' = diagnostics st @ missing_attribute_errors w @ remark_if_dilated w) \<and>
     missing_attribute_errors w \<noteq> [] \<and>
     list_all (\<lambda>d. diag_severity d = Error \<and> diag_op d = rw_handle w) (missing_attribute_errors w) \<and>
     (\<forall>s. Window_matchAndRewrite w st \<noteq> Inr (failure, s)) \<and>
     (\<forall>ol wl s. \<exists>e s'. Window_CreateReduceOpInNestedParallelLoops w ol wl s = Inl (e, s') \<and>
        diagnostics s' = diagnostics s @ missing_attribute_errors w @ remark_if_dilated w)"
proof (intro conjI)
  show "\<exists>st'. Window_matchAndRewrite w st =
            Inl (if isMemRef (getType (rw_operand w)) then NoValue else BadCast, st') \<and>
          diagnostics st' = diagnostics st @ missing_attribute_errors w @ remark_if_dilated w"
    by (rule window_rewrite_missing[OF assms])
  show "missing_attribute_errors w \<noteq> []"
    using assms(1) by (auto simp: missing_attribute_errors_def)
  show "list_all (\<lambda>d. diag_severity d = Error \<and> diag_op d = rw_handle w) (missing_attribute_errors w)"
    by (simp add: missing_attribute_errors_def)
  show "\<forall>s. Window_matchAndRewrite w st \<noteq> Inr (failure, s)"
    by (simp add: window_rewrite_never_declines)
  show "\<forall>ol wl s. \<exists>e s'. Window_CreateReduceOpInNestedParallelLoops w ol wl s = Inl (e, s') \<and>
        diagnostics s' = diagnostics s @ missing_attribute_errors w @ remark_if_dilated w"
    by (simp add: missing_attribute_outcome[OF assms(1)])
qed

theorem missing_attribute_reported_not_declined_witness:
  "\<exists>st'. Window_matchAndRewrite (example_window None None) example_window_rewriter =
            Inl (NoValue, st') \<and>
     diagnostics st' =
       [\<lparr>diag_severity = Error, diag_op = 0, diag_message = ''No window strides specified.''\<rparr>,
        \<lparr>diag_severity = Error, diag_op = 0, diag_message = ''No padding specified.''\<rparr>]"
proof -
  have h: "window_strides (example_window None None) = None \<or> padding (example_window None None) = None"
    by (simp add: example_window_fields)
  note t = missing_attribute_reported_not_declined[OF h example_window_fields(7,8),
      where st = example_window_rewriter, THEN conjunct1]
  then show ?thesis
    by (simp add: example_window_fields missing_attribute_errors_def remark_if_dilated_def)
qed

text \<open>
  C6: the windowed converter has no path that reports failure. For the example
  operation without the optional \<^verbatim>\<open>window_strides\<close> attribute it emits the error
  diagnostic and then reads the value of the absent attribute, which is the
  \<open>NoValue\<close> error branch.
\<close>

theorem windowed_converter_reads_absent_strides:
  "(\<exists>st'. Window_matchAndRewrite (example_window None (Some [[0, 1], [0, 1]]))
             example_window_rewriter = Inl (NoValue, st') \<and>
          diagnostics st' =
            [\<lparr>diag_severity = Error, diag_op = 0,
              diag_message = ''No window strides specified.''\<rparr>]) \<and>
   (\<forall>w st s. Window_matchAndRewrite w st \<noteq> Inr (failure, s))"
proof
  have h: "window_strides (example_window None (Some [[0, 1], [0, 1]])) = None \<or>
           padding (example_window None (Some [[0, 1], [0, 1]])) = None"
    by (simp add: example_window_fields)
  show "\<exists>st'. Window_matchAndRewrite (example_window None (Some [[0, 1], [0, 1]]))
             example_window_rewriter = Inl (NoValue, st') \<and>
          diagnostics st' =
            [\<lparr>diag_severity = Error, diag_op = 0,
              diag_message = ''No window strides specified.''\<rparr>]"
    using window_rewrite_missing[OF h example_window_fields(7,8), where st = example_window_rewriter]
    by (simp add: example_window_fields missing_attribute_errors_def remark_if_dilated_def)
  show "\<forall>w st s. Window_matchAndRewrite w st \<noteq> Inr (failure, s)"
    by (simp add: window_rewrite_never_declines)
qed

section \<open>Dilation attributes\<close>

lemma set_diagnostics_simps [simp]:
  "set_diagnostics D (Inl (e, st)) = Inl (e, st\<lparr>diagnostics := D\<rparr>)"
  "set_diagnostics D (Inr (x, st)) = Inr (x, st\<lparr>diagnostics := D\<rparr>)"
  by (simp_all add: set_diagnostics_def)

lemma set_diagnostics_twice [simp]:
  "set_diagnostics D (set_diagnostics E r) = set_diagnostics D r"
  by (auto simp: set_diagnostics_def split: sum.splits)

lemma case_set_diagnostics [simp]:
  "case_sum f g (set_diagnostics D r) =
     case_sum (\<lambda>(e, s). f (e, s\<lparr>diagnostics := D\<rparr>)) (\<lambda>(x, s). g (x, s\<lparr>diagnostics := D\<rparr>)) r"
  by (auto simp: set_diagnostics_def split: sum.splits)

lemma with_diagnostics_proj [simp]:
  "block_args (with_diagnostics D st) = block_args st"
  "block_ops (with_diagnostics D st) = block_ops st"
  "next_value (with_diagnostics D st) = next_value st"
  "next_block (with_diagnostics D st) = next_block st"
  "insertion_point (with_diagnostics D st) = insertion_point st"
  "(with_diagnostics D st)\<lparr>block_ops := X\<rparr> = with_diagnostics D (st\<lparr>block_ops := X\<rparr>)"
  by (simp_all add: with_diagnostics_def)

lemma fresh_values_with_diagnostics:
  "fresh_values tys (with_diagnostics D st) =
     (fst (fresh_values tys st), with_diagnostics D (snd (fresh_values tys st)))"
  by (simp add: fresh_values_def with_diagnostics_def)

lemma new_block_with_diagnostics:
  "new_block tys body_ops (with_diagnostics D st) =
     (fst (new_block tys body_ops st), with_diagnostics D (snd (new_block tys body_ops st)))"
  by (simp add: new_block_closed with_diagnostics_def)

lemma clone_regions_diag_step:
  assumes ops: "\<And>ops m st. clone_ops d A B ops m (with_diagnostics D st) =
      map_option (\<lambda>(xs, m', s). (xs, m', with_diagnostics D s)) (clone_ops d A B ops m st)"
  shows "clone_regions (Suc d) A B regs m (with_diagnostics D st) =
      map_option (\<lambda>(xs, m', s). (xs, m', with_diagnostics D s)) (clone_regions (Suc d) A B regs m st)"
proof (induction regs arbitrary: m st)
  case Nil
  show ?case by simp
next
  case (Cons r rs)
  show ?case
    by (simp add: Let_def split_beta new_block_with_diagnostics ops Cons.IH
        split: option.splits)
qed

lemma clone_ops_diag_step:
  assumes regs: "\<And>regs m st. clone_regions d A B regs m (with_diagnostics D st) =
      map_option (\<lambda>(xs, m', s). (xs, m', with_diagnostics D s)) (clone_regions d A B regs m st)"
  shows "clone_ops d A B ops m (with_diagnostics D st) =
      map_option (\<lambda>(xs, m', s). (xs, m', with_diagnostics D s)) (clone_ops d A B ops m st)"
proof (induction ops arbitrary: m st)
  case Nil
  show ?case by simp
next
  case (Cons oper rest)
  show ?case
    by (simp add: Let_def split_beta fresh_values_with_diagnostics regs Cons.IH
        split: option.splits)
qed

lemma clone_regions_diag:
  "clone_regions d A B regs m (with_diagnostics D st) =
      map_option (\<lambda>(xs, m', s). (xs, m', with_diagnostics D s)) (clone_regions d A B regs m st)"
proof (induction d arbitrary: regs m st)
  case 0
  show ?case by (cases regs) simp_all
next
  case (Suc d)
  show ?case
    by (rule clone_regions_diag_step, rule clone_ops_diag_step, rule Suc)
qed

lemma clone_ops_diag:
  "clone_ops d A B ops m (with_diagnostics D st) =
      map_option (\<lambda>(xs, m', s). (xs, m', with_diagnostics D s)) (clone_ops d A B ops m st)"
  by (rule clone_ops_diag_step, rule clone_regions_diag)

lemma clone_diag:
  "clone oper m (st\<lparr>diagnostics := D\<rparr>) = set_diagnostics D (clone oper m st)"
proof -
  have "clone oper m (with_diagnostics D st) = set_diagnostics D (clone oper m st)"
    apply (simp add: clone_def clone_ops_diag Let_def split: option.splits del: clone_ops.simps)
    apply (simp add: with_diagnostics_def insert_at_def)
    done
  then show ?thesis by (simp add: with_diagnostics_def)
qed

lemma clone_without_terminator_diag:
  "clone_without_terminator ops mapping (st\<lparr>diagnostics := D\<rparr>) =
   set_diagnostics D (clone_without_terminator ops mapping st)"
proof (induction ops arbitrary: mapping st)
  case Nil
  then show ?case by simp
next
  case (Cons a ops)
  then show ?case
    by (simp add: clone_diag split: sum.splits prod.splits)
qed

lemma emit_diag: "emit new k (st\<lparr>diagnostics := D\<rparr>) = (emit new k st)\<lparr>diagnostics := D\<rparr>"
  by (simp add: emit_def)

lemma setInsertionPointToStart_diag:
  "setInsertionPointToStart b (st\<lparr>diagnostics := D\<rparr>) =
     (setInsertionPointToStart b st)\<lparr>diagnostics := D\<rparr>"
  by (simp add: setInsertionPointToStart_def)

lemma ConvertToReductionOperator_diag:
  "ConvertToReductionOperator reduce_op lhlo_block (st\<lparr>diagnostics := D\<rparr>) =
   set_diagnostics D (ConvertToReductionOperator reduce_op lhlo_block st)"
  by (simp add: ConvertToReductionOperator_def setInsertionPointToStart_diag getArgument_def
      create1_emit create0_emit emit_emit emit_diag Let_def clone_without_terminator_diag
      create_LoadOp_def
      split: list.splits option.splits sum.splits prod.splits)

lemma operand_indices_loop_diag:
  "operand_indices_loop x shape ovs wvs strides pad i e acc inb (st\<lparr>diagnostics := D\<rparr>) =
   set_diagnostics D (operand_indices_loop x shape ovs wvs strides pad i e acc inb st)"
proof (induction "e - i" arbitrary: i acc inb st)
  case 0
  then show ?case by (simp add: operand_indices_loop.simps)
next
  case (Suc d)
  then have d: "d = e - Suc i" and lt: "i < e" by auto
  note ih = Suc.hyps(1)[OF d]
  show ?case
    apply (subst operand_indices_loop.simps)
    apply (subst operand_indices_loop.simps[of x shape ovs wvs strides pad i e acc inb st])
    apply (simp add: lt create1_emit GetStaticOrDynamicDim_emit emit_emit emit_diag ih Let_def
        split: option.splits)
    done
qed

lemma emitOpError_if:
  "(if P then emitOpError h msg st else st) =
     st\<lparr>diagnostics := diagnostics st @
       (if P then [\<lparr>diag_severity = Error, diag_op = h, diag_message = msg\<rparr>] else [])\<rparr>"
  by (simp add: emitOpError_def)

lemma create_at_diag:
  "create_at pt n args tys regs (st\<lparr>diagnostics := D\<rparr>) =
     (fst (create_at pt n args tys regs st), fst (snd (create_at pt n args tys regs st)),
      (snd (snd (create_at pt n args tys regs st)))\<lparr>diagnostics := D\<rparr>)"
  by (simp add: create_at_closed)

lemma create_IfOp_diag:
  "create_IfOp tys cond b (st\<lparr>diagnostics := D\<rparr>) =
     (fst (create_IfOp tys cond b st), (snd (create_IfOp tys cond b st))\<lparr>diagnostics := D\<rparr>)"
  by (cases st) (simp add: create_IfOp_def new_block_closed create_emit emit_def Let_def)

lemma create_ReduceOp_diag:
  "create_ReduceOp x (st\<lparr>diagnostics := D\<rparr>) =
     (fst (create_ReduceOp x st), (snd (create_ReduceOp x st))\<lparr>diagnostics := D\<rparr>)"
  by (cases st) (simp add: create_ReduceOp_closed emit_def)

lemma getBodyBuilder_diag [simp]:
  "getBodyBuilder (st\<lparr>diagnostics := D\<rparr>) b = getBodyBuilder st b"
  by (simp add: getBodyBuilder_def)

lemma getInductionVars_diag [simp]:
  "getInductionVars (st\<lparr>diagnostics := D\<rparr>) l = getInductionVars st l"
  by (simp add: getInductionVars_def)

lemma window_create_up_to_diagnostics:
  "Window_CreateReduceOpInNestedParallelLoops w ol wl st =
     set_diagnostics (diagnostics st @ missing_attribute_errors w @ remark_if_dilated w)
       (Window_CreateReduceOpInNestedParallelLoops (ignore_dilations w) ol wl st)"
  apply (cases "isMemRef (getType (rw_operand w))")
  apply (simp_all add: Window_CreateReduceOpInNestedParallelLoops_def ignore_dilations_def
      emit_diagnostics_if emitOpError_if Let_def split_beta
      missing_attribute_errors_def remark_if_dilated_def dilation_remark_def
      create1_emit emit_diag operand_indices_loop_diag create_at_diag create_IfOp_diag
      create_ReduceOp_diag
      split: option.splits sum.splits list.splits split del: if_split cong: if_cong)
  done

lemma without_set_diagnostics [simp]:
  "without_diagnostics (set_diagnostics D r) = without_diagnostics r"
  by (auto simp: without_diagnostics_def set_diagnostics_def split: sum.splits)

lemma final_set_diagnostics [simp]:
  "diagnostics (final_state (set_diagnostics D r)) = D"
  by (auto simp: final_state_def set_diagnostics_def split: sum.splits)

lemma window_loops_independent_of_dilations:
  "CreateParallelLoopsToTraverseOutputAndWindow (ignore_dilations w) st =
     CreateParallelLoopsToTraverseOutputAndWindow w st"
proof -
  have f: "rw_init_value (ignore_dilations w) = rw_init_value w"
    "rw_out (ignore_dilations w) = rw_out w"
    "window_dimensions (ignore_dilations w) = window_dimensions w"
    by (simp_all add: ignore_dilations_def)
  show ?thesis
    unfolding CreateParallelLoopsToTraverseOutputAndWindow_def f ..
qed

lemma replaceOp_diag:
  "replaceOp h (st\<lparr>diagnostics := D\<rparr>) = (replaceOp h st)\<lparr>diagnostics := D\<rparr>"
  by (simp add: replaceOp_def)

lemma window_rewrite_diag:
  assumes "CreateParallelLoopsToTraverseOutputAndWindow w st = Inr ((ol, wl), st1)"
  shows "Window_matchAndRewrite w st =
     set_diagnostics (diagnostics st1 @ missing_attribute_errors w @ remark_if_dilated w)
       (Window_matchAndRewrite (ignore_dilations w) st)"
proof -
  have f: "rw_body (ignore_dilations w) = rw_body w" "rw_handle (ignore_dilations w) = rw_handle w"
    by (simp_all add: ignore_dilations_def)
  show ?thesis
    unfolding Window_matchAndRewrite_def window_loops_independent_of_dilations assms f
    apply (subst window_create_up_to_diagnostics)
    apply (simp add: ConvertToReductionOperator_diag replaceOp_diag
        split: sum.splits prod.splits)
    done
qed

lemma window_rewrite_early:
  assumes "CreateParallelLoopsToTraverseOutputAndWindow w st = Inl e"
  shows "Window_matchAndRewrite w st = Window_matchAndRewrite (ignore_dilations w) st"
  unfolding Window_matchAndRewrite_def window_loops_independent_of_dilations assms
  by simp

lemma window_rewrite_up_to_diagnostics:
  "without_diagnostics (Window_matchAndRewrite w st) =
   without_diagnostics (Window_matchAndRewrite (ignore_dilations w) st)"
proof (cases "CreateParallelLoopsToTraverseOutputAndWindow w st")
  case (Inl e)
  then show ?thesis by (simp only: window_rewrite_early)
next
  case (Inr r)
  then obtain ol wl st1 where "CreateParallelLoopsToTraverseOutputAndWindow w st = Inr ((ol, wl), st1)"
    by (cases r) auto
  then have "Window_matchAndRewrite w st =
     set_diagnostics (diagnostics st1 @ missing_attribute_errors w @ remark_if_dilated w)
       (Window_matchAndRewrite (ignore_dilations w) st)"
    by (rule window_rewrite_diag)
  then show ?thesis by (simp only: without_set_diagnostics)
qed

lemma window_rewrite_diagnostics:
  assumes "isMemRef (getType (rw_init_value w))" "isMemRef (getType (rw_out w))"
  shows "diagnostics (final_state (Window_matchAndRewrite w st)) =
     diagnostics st @ missing_attribute_errors w @ remark_if_dilated w"
proof -
  obtain ol wl st1 where c: "CreateParallelLoopsToTraverseOutputAndWindow w st = Inr ((ol, wl), st1)"
    and d: "diagnostics st1 = diagnostics st"
    using window_loops_succeed[OF assms] by blast
  show ?thesis by (simp only: window_rewrite_diag[OF c] d final_set_diagnostics)
qed

lemma ignore_dilations_simps [simp]:
  "missing_attribute_errors (ignore_dilations w) = missing_attribute_errors w"
  "remark_if_dilated (ignore_dilations w) = []"
  "rw_init_value (ignore_dilations w) = rw_init_value w"
  "rw_out (ignore_dilations w) = rw_out w"
  by (simp_all add: ignore_dilations_def missing_attribute_errors_def remark_if_dilated_def)

text \<open>
  C9: a windowed reduction is rewritten exactly as the same operation without its
  \<^verbatim>\<open>base_dilations\<close> and \<^verbatim>\<open>window_dilations\<close> attributes: the outcome, the emitted loops
  and the index arithmetic in every block are the same, only the diagnostics can
  differ. When one of the two attributes is present and the initial value and the
  output are buffers, so that the two loops are built, the diagnostics differ by
  exactly one entry, reported last: a remark on the operation.
\<close>

theorem dilations_ignored_with_remark:
  "without_diagnostics (Window_matchAndRewrite w st) =
     without_diagnostics (Window_matchAndRewrite (ignore_dilations w) st) \<and>
   ((base_dilations w \<noteq> None \<or> window_dilations w \<noteq> None) \<and>
    isMemRef (getType (rw_init_value w)) \<and> isMemRef (getType (rw_out w)) \<longrightarrow>
    diagnostics (final_state (Window_matchAndRewrite w st)) =
      diagnostics (final_state (Window_matchAndRewrite (ignore_dilations w) st)) @
      [dilation_remark (rw_handle w)] \<and>
    diag_severity (dilation_remark (rw_handle w)) = Remark \<and>
    diag_op (dilation_remark (rw_handle w)) = rw_handle w)"
proof (intro conjI impI)
  show "without_diagnostics (Window_matchAndRewrite w st) =
     without_diagnostics (Window_matchAndRewrite (ignore_dilations w) st)"
    by (rule window_rewrite_up_to_diagnostics)
  show "diag_severity (dilation_remark (rw_handle w)) = Remark"
    "diag_op (dilation_remark (rw_handle w)) = rw_handle w"
    by (simp_all add: dilation_remark_def)
  assume a: "(base_dilations w \<noteq> None \<or> window_dilations w \<noteq> None) \<and>
    isMemRef (getType (rw_init_value w)) \<and> isMemRef (getType (rw_out w))"
  then have m: "isMemRef (getType (rw_init_value w))" "isMemRef (getType (rw_out w))"
    and r: "remark_if_dilated w = [dilation_remark (rw_handle w)]"
    by (auto simp: remark_if_dilated_def)
  have m': "isMemRef (getType (rw_init_value (ignore_dilations w)))"
    "isMemRef (getType (rw_out (ignore_dilations w)))"
    using m by simp_all
  show "diagnostics (final_state (Window_matchAndRewrite w st)) =
      diagnostics (final_state (Window_matchAndRewrite (ignore_dilations w) st)) @
      [dilation_remark (rw_handle w)]"
    unfolding window_rewrite_diagnostics[OF m] window_rewrite_diagnostics[OF m'] r
    by simp
qed

theorem dilations_ignored_with_remark_witness:
  "without_diagnostics (Window_matchAndRewrite example_window_dilated example_window_rewriter) =
     without_diagnostics (Window_matchAndRewrite example_window_padded example_window_rewriter) \<and>
   diagnostics (final_state (Window_matchAndRewrite example_window_dilated example_window_rewriter)) =
     diagnostics (final_state (Window_matchAndRewrite example_window_padded example_window_rewriter)) @
     [\<lparr>diag_severity = Remark, diag_op = 0, diag_message = dilation_message\<rparr>]"
proof -
  have i: "ignore_dilations example_window_dilated = example_window_padded"
    by (simp add: ignore_dilations_def example_window_dilated_def example_window_padded_def
        example_window_def)
  have h: "(base_dilations example_window_dilated \<noteq> None \<or>
            window_dilations example_window_dilated \<noteq> None) \<and>
           isMemRef (getType (rw_init_value example_window_dilated)) \<and>
           isMemRef (getType (rw_out example_window_dilated))"
    by (simp add: example_window_dilated_def example_window_padded_def example_window_def
        isMemRef_def scalar_buffer_def)
  have r: "rw_handle example_window_dilated = 0"
    by (simp add: example_window_dilated_def example_window_padded_def example_window_def)
  note t = dilations_ignored_with_remark[of example_window_dilated example_window_rewriter,
      unfolded i]
  note t1 = t[THEN conjunct1]
  note t2 = t[THEN conjunct2, THEN mp, OF h, THEN conjunct1, unfolded r dilation_remark_def]
  show ?thesis
    using t1 t2 by (rule conjI)
qed

section \<open>The transplanted reduction body\<close>

lemma lookupOrDefault_skip:
  "v \<notin> fst ` set es \<Longrightarrow> lookupOrDefault (es @ m) v = lookupOrDefault m v"
  by (simp add: lookupOrDefault_def map_add_def map_of_eq_None_iff[THEN iffD2])

lemma lookupOrDefault_parameters:
  assumes "distinct [e, a, r]"
  shows "lookupOrDefault (map_values [e, a, r] [eb, ab, ab] []) e = eb"
    "lookupOrDefault (map_values [e, a, r] [eb, ab, ab] []) a = ab"
    "lookupOrDefault (map_values [e, a, r] [eb, ab, ab] []) r = ab"
  using assms by (auto simp: lookupOrDefault_def map_values_def)

lemma cloned_from_parameters:
  assumes c: "cloned_from K (map_values [e, a, r] [eb, ab, ab] []) c oper"
    and d: "distinct [e, a, r]" and k: "e \<notin> K" "a \<notin> K" "r \<notin> K"
  shows "op_name c = op_name oper \<and>
     map getType (op_results c) = map getType (op_results oper) \<and>
     length (op_regions c) = length (op_regions oper) \<and>
     length (op_operands c) = length (op_operands oper) \<and>
     (\<forall>k<length (op_operands oper).
        (op_operands oper ! k = e \<longrightarrow> op_operands c ! k = eb) \<and>
        (op_operands oper ! k = a \<longrightarrow> op_operands c ! k = ab) \<and>
        (op_operands oper ! k = r \<longrightarrow> op_operands c ! k = ab))"
proof -
  let ?m = "map_values [e, a, r] [eb, ab, ab] []"
  obtain es where o: "op_operands c = map (lookupOrDefault (es @ ?m)) (op_operands oper)"
    and s: "fst ` set es \<subseteq> K"
    and n: "op_name c = op_name oper"
      "map getType (op_results c) = map getType (op_results oper)"
      "length (op_regions c) = length (op_regions oper)"
    using c unfolding cloned_from_def by blast
  have ne: "e \<notin> fst ` set es" "a \<notin> fst ` set es" "r \<notin> fst ` set es"
    using s k by blast+
  have l: "lookupOrDefault (es @ ?m) e = eb" "lookupOrDefault (es @ ?m) a = ab"
    "lookupOrDefault (es @ ?m) r = ab"
    unfolding lookupOrDefault_skip[OF ne(1)] lookupOrDefault_skip[OF ne(2)]
      lookupOrDefault_skip[OF ne(3)]
    by (rule lookupOrDefault_parameters[OF d])+
  show ?thesis
    using n l by (simp add: o del: append.simps)
qed


lemma ex_nested_fields:
  "op_regions example_loop_reduce = 3 # []"
  "block_args example_rewriter_nested 3 = Value 6 f32 # Value 7 f32 # []"
  "block_args example_rewriter_nested 1 =
     [Value 3 scalar_buffer, Value 4 scalar_buffer, Value 5 scalar_buffer]"
  "butlast (block_ops example_rewriter_nested 1) =
     [other_op ''test.wrap'' [Value 3 scalar_buffer, Value 4 scalar_buffer] [2]]"
  "block_ops example_rewriter_nested 3 = []"
  "next_block example_rewriter_nested = 4" "next_value example_rewriter_nested = 8"
  by (simp_all add: example_rewriter_nested_def example_loop_reduce_def)

lemma ex_nested_ok:
  "ops_ok (next_block example_rewriter_nested)
     (\<lambda>b. b < next_block example_rewriter_nested \<and> b \<noteq> 3 \<and> b \<noteq> 1)
     (block_ops example_rewriter_nested)
     [other_op ''test.wrap'' [Value 3 scalar_buffer, Value 4 scalar_buffer] [2]]"
proof -
  have n: "next_block example_rewriter_nested = Suc 3" by (simp add: ex_nested_fields)
  have b: "block_ops example_rewriter_nested 2 =
      [other_op ''xla_lhlo.maximum''
         [Value 3 scalar_buffer, Value 4 scalar_buffer, Value 5 scalar_buffer] [],
       other_op ''test.done'' [] []]"
    by (simp add: example_rewriter_nested_def)
  have r: "regions_ok (Suc 3)
     (\<lambda>b. b < next_block example_rewriter_nested \<and> b \<noteq> 3 \<and> b \<noteq> 1)
     (block_ops example_rewriter_nested) [2]"
    apply (subst regions_ok_Suc_simps(2))
    apply (simp add: b other_op_def ex_nested_fields)
    done
  show ?thesis
    using r by (simp add: other_op_def ex_nested_fields)
qed

lemma ex_nested_defined:
  "defined_in (\<lambda>b. b < next_block example_rewriter_nested \<and> b \<noteq> 3 \<and> b \<noteq> 1)
     (block_args example_rewriter_nested) (block_ops example_rewriter_nested) = {}"
  by (auto simp: defined_in_def example_rewriter_nested_def other_op_def split: if_splits)


end
